theory Spec2Isabelle
  imports Complex_Main "HOL-Library.AList" "HOL-Library.Sublist"
begin

section \<open>Data model\<close>

text \<open>
  The nested-dictionary helpers of \<^verbatim>\<open>sciris/utils.py\<close> work on trees of Python
  dictionaries. A value is \<^verbatim>\<open>None\<close>, an integer, a string or a dictionary; a
  dictionary is an association list in insertion order (Python dictionaries keep it), with
  string keys. The nested dictionaries are taken to form a tree: no dictionary object is
  shared between two places.
\<close>

datatype pyval = PNone | PInt int | PStr string | PDict "(string \<times> pyval) list"

text \<open>
  The exceptions the modelled functions raise. The last six are all Python's plain
  \<^verbatim>\<open>Exception\<close>, told apart by their message.
\<close>

datatype error =
    KeyError
  | TypeError
  | AttributeError
  | IndexError
  | ValueError
  | ZeroDivisionError
  | OverflowError
  | NoOriginal
  | NoVector
  | LengthsMustMatch nat nat
  | MaxIndexTooLarge int nat
  | TooManyArguments
  | RecursionLimit string

fun is_dict :: "pyval \<Rightarrow> bool" where
  "is_dict (PDict kvs) = True"
| "is_dict v = False"

text \<open>Python's truth value of an object (\<^verbatim>\<open>if d\<close>).\<close>

fun truthy :: "pyval \<Rightarrow> bool" where
  "truthy PNone = False"
| "truthy (PInt i) = (i \<noteq> 0)"
| "truthy (PStr s) = (s \<noteq> [])"
| "truthy (PDict kvs) = (kvs \<noteq> [])"

text \<open>\<^verbatim>\<open>d.get(k)\<close>: only a dictionary has the method.\<close>

fun py_get :: "pyval \<Rightarrow> string \<Rightarrow> error + pyval" where
  "py_get (PDict kvs) k = Inr (case map_of kvs k of None \<Rightarrow> PNone | Some v \<Rightarrow> v)"
| "py_get v k = Inl AttributeError"

text \<open>\<^verbatim>\<open>d[k]\<close> with a string key.\<close>

fun py_getitem :: "pyval \<Rightarrow> string \<Rightarrow> error + pyval" where
  "py_getitem (PDict kvs) k = (case map_of kvs k of None \<Rightarrow> Inl KeyError | Some v \<Rightarrow> Inr v)"
| "py_getitem v k = Inl TypeError"

text \<open>
  \<^verbatim>\<open>d[k] = v\<close>: an existing key keeps its place, a new key goes to the end. The result
  is the object after the assignment.
\<close>

fun py_setitem :: "pyval \<Rightarrow> string \<Rightarrow> pyval \<Rightarrow> error + pyval" where
  "py_setitem (PDict kvs) k v = Inr (PDict (AList.update k v kvs))"
| "py_setitem d k v = Inl TypeError"

text \<open>\<^verbatim>\<open>k in d\<close>: key membership for a dictionary, substring test for a string.\<close>

fun py_contains :: "pyval \<Rightarrow> string \<Rightarrow> error + bool" where
  "py_contains (PDict kvs) k = Inr (k \<in> set (map fst kvs))"
| "py_contains (PStr s) k = Inr (sublist k s)"
| "py_contains v k = Inl TypeError"

text \<open>
  The object found along a path of keys is mutated in place by the code; in the tree model
  the mutated object is written back at its path.
\<close>

fun put_at :: "pyval \<Rightarrow> string list \<Rightarrow> pyval \<Rightarrow> pyval" where
  "put_at d [] new = new"
| "put_at d (k # ks) new =
     (case d of
        PDict kvs \<Rightarrow>
          (case map_of kvs k of
             None \<Rightarrow> d
           | Some child \<Rightarrow> PDict (AList.update k (put_at child ks new) kvs))
      | _ \<Rightarrow> d)"

section \<open>Nested dictionary functions\<close>

text \<open>\<^verbatim>\<open>functools.reduce\<close> with an initial value; an exception in the function ends it.\<close>

fun reduce :: "('a \<Rightarrow> 'b \<Rightarrow> error + 'a) \<Rightarrow> 'b list \<Rightarrow> 'a \<Rightarrow> error + 'a" where
  "reduce f [] d = Inr d"
| "reduce f (k # ks) d = (case f d k of Inl e \<Rightarrow> Inl e | Inr d' \<Rightarrow> reduce f ks d')"

text \<open>
  \<^verbatim>\<open>reduce(lambda d, k: d.get(k) if d else None if safe else d[k], keylist, nesteddict)\<close>.
  Python reads the conditional expression as
  \<^verbatim>\<open>d.get(k) if d else (None if safe else d[k])\<close>.
\<close>

definition getnested_step :: "bool \<Rightarrow> pyval \<Rightarrow> string \<Rightarrow> error + pyval" where
  "getnested_step safe d k =
     (if truthy d then py_get d k else if safe then Inr PNone else py_getitem d k)"

definition getnested :: "pyval \<Rightarrow> string list \<Rightarrow> bool \<Rightarrow> error + pyval" where
  "getnested nesteddict keylist safe = reduce (getnested_step safe) keylist nesteddict"

text \<open>
  \<^verbatim>\<open>getnested(nesteddict, keylist[:-1])[keylist[-1]] = value\<close>. The result is the
  tree after the call and the exception raised, if any.
\<close>

definition setnested :: "pyval \<Rightarrow> string list \<Rightarrow> pyval \<Rightarrow> pyval \<times> error option" where
  "setnested nesteddict keylist val =
     (case getnested nesteddict (butlast keylist) False of
        Inl e \<Rightarrow> (nesteddict, Some e)
      | Inr target \<Rightarrow>
          if keylist = [] then (nesteddict, Some IndexError)
          else (case py_setitem target (last keylist) val of
                  Inl e \<Rightarrow> (nesteddict, Some e)
                | Inr target' \<Rightarrow> (put_at nesteddict (butlast keylist) target', None)))"

text \<open>
  The loop of \<^verbatim>\<open>makenested\<close> over \<^verbatim>\<open>keylist[:-1]\<close>, followed by the assignment at
  \<^verbatim>\<open>keylist[-1]\<close>. \<open>currentlevel\<close> is the object the loop stands at; the result is that
  object after the call (with everything created below it) and the exception, if any.
\<close>

fun makenested_loop :: "pyval \<Rightarrow> string list \<Rightarrow> string \<Rightarrow> pyval \<Rightarrow> pyval \<times> error option" where
  "makenested_loop currentlevel [] lastkey item =
     (case py_setitem currentlevel lastkey item of
        Inl e \<Rightarrow> (currentlevel, Some e)
      | Inr level' \<Rightarrow> (level', None))"
| "makenested_loop currentlevel (key # keys) lastkey item =
     (case py_contains currentlevel key of
        Inl e \<Rightarrow> (currentlevel, Some e)
      | Inr present \<Rightarrow>
          (case (if present then Inr currentlevel else py_setitem currentlevel key (PDict [])) of
             Inl e \<Rightarrow> (currentlevel, Some e)
           | Inr level1 \<Rightarrow>
               (case py_getitem level1 key of
                  Inl e \<Rightarrow> (level1, Some e)
                | Inr child \<Rightarrow>
                    (case makenested_loop child keys lastkey item of
                       (child', r) \<Rightarrow> (put_at level1 [key] child', r)))))"

definition makenested :: "pyval \<Rightarrow> string list \<Rightarrow> pyval \<Rightarrow> pyval \<times> error option" where
  "makenested nesteddict keylist item =
     (if keylist = [] then (nesteddict, Some IndexError)
      else makenested_loop nesteddict (butlast keylist) (last keylist) item)"

text \<open>
  The body of \<^verbatim>\<open>iternested\<close> on the items of a dictionary: a value that is a dictionary
  is entered, any other value ends a path.
\<close>

fun iter_items :: "(string \<times> pyval) list \<Rightarrow> string list \<Rightarrow> string list list" where
  "iter_items [] previous = []"
| "iter_items ((k, PDict sub) # rest) previous =
     iter_items sub (previous @ [k]) @ iter_items rest previous"
| "iter_items ((k, v) # rest) previous = (previous @ [k]) # iter_items rest previous"

text \<open>\<^verbatim>\<open>nesteddict.items()\<close> exists for a dictionary only.\<close>

definition iternested :: "pyval \<Rightarrow> string list \<Rightarrow> error + string list list" where
  "iternested nesteddict previous =
     (case nesteddict of
        PDict kvs \<Rightarrow> Inr (iter_items kvs previous)
      | _ \<Rightarrow> Inl AttributeError)"

section \<open>Paths through a tree\<close>

text \<open>
  What a descent along a path of keys meets first: the value at the end of the path, a key
  missing from a non-empty dictionary, an empty dictionary, a level that is no dictionary
  and false as a truth value (\<^verbatim>\<open>None\<close>, \<^verbatim>\<open>0\<close>, the empty string), or a level
  that is no dictionary and true as a truth value.
\<close>

datatype descent = Reached pyval | MissingKey | EmptyMapping | NullLevel | NonMapping

fun descend :: "pyval \<Rightarrow> string list \<Rightarrow> descent" where
  "descend v [] = Reached v"
| "descend v (k # ks) =
     (case v of
        PDict kvs \<Rightarrow>
          (if kvs = [] then EmptyMapping
           else (case map_of kvs k of None \<Rightarrow> MissingKey | Some c \<Rightarrow> descend c ks))
      | _ \<Rightarrow> if truthy v then NonMapping else NullLevel)"

text \<open>Every level that exists along the keys is a dictionary.\<close>

fun levels_ok :: "pyval \<Rightarrow> string list \<Rightarrow> bool" where
  "levels_ok v [] = is_dict v"
| "levels_ok v (k # ks) =
     (case v of
        PDict kvs \<Rightarrow> (case map_of kvs k of None \<Rightarrow> True | Some c \<Rightarrow> levels_ok c ks)
      | _ \<Rightarrow> False)"

text \<open>
  The chain of one-entry dictionaries along a path, with the value at its end: what a path
  looks like when every level of it had to be created.
\<close>

fun nest :: "string list \<Rightarrow> pyval \<Rightarrow> pyval" where
  "nest [] v = v"
| "nest (k # ks) v = PDict [(k, nest ks v)]"

text \<open>The keys of every dictionary of the tree are distinct, as in any Python dictionary.\<close>

fun wf_tree :: "pyval \<Rightarrow> bool" where
  "wf_tree (PDict kvs) = (distinct (map fst kvs) \<and> (\<forall>c \<in> snd ` set kvs. wf_tree c))"
| "wf_tree v = True"

text \<open>
  The complete paths below a value, depth first: a value that is no dictionary has the
  empty path alone; a dictionary has, key by key in its own order, the paths below the
  key's value with the key in front.
\<close>

fun leaf_paths :: "pyval \<Rightarrow> string list list"
  and leaf_paths_items :: "(string \<times> pyval) list \<Rightarrow> string list list" where
  "leaf_paths (PDict kvs) = leaf_paths_items kvs"
| "leaf_paths v = [[]]"
| "leaf_paths_items [] = []"
| "leaf_paths_items ((k, c) # rest) = map ((#) k) (leaf_paths c) @ leaf_paths_items rest"

text \<open>A path that ends at a value that is no dictionary.\<close>

definition is_leaf_path :: "pyval \<Rightarrow> string list \<Rightarrow> bool" where
  "is_leaf_path tree p = (case descend tree p of Reached v \<Rightarrow> \<not> is_dict v | _ \<Rightarrow> False)"

text \<open>
  The position of a key in its dictionary, and the positions of the keys of a path, level
  by level. Depth first in key order is the lexicographic order of these positions.
\<close>

fun index_of :: "string \<Rightarrow> (string \<times> pyval) list \<Rightarrow> nat" where
  "index_of k [] = 0"
| "index_of k ((k', v) # rest) = (if k = k' then 0 else Suc (index_of k rest))"

fun key_positions :: "pyval \<Rightarrow> string list \<Rightarrow> nat list" where
  "key_positions v [] = []"
| "key_positions v (k # ks) =
     (case v of
        PDict kvs \<Rightarrow>
          index_of k kvs # (case map_of kvs k of None \<Rightarrow> [] | Some c \<Rightarrow> key_positions c ks)
      | _ \<Rightarrow> [])"

section \<open>flattendict\<close>








section \<open>vec2obj\<close>

text \<open>
  \<^verbatim>\<open>vec2obj\<close> copies a list object and assigns into the copy, so the objects have
  identities here: the heap is the list of the list objects, an address is a position in
  it, and a new object is put at the end. The elements of an object are values
  (\<open>pyval\<close>), copied whole by a deep copy.
\<close>

type_synonym heap = "pyval list list"

text \<open>\<^verbatim>\<open>dcp(obj)\<close>, that is \<^verbatim>\<open>copy.deepcopy(obj)\<close>: a new object with the same contents.\<close>

definition dcp :: "heap \<Rightarrow> nat \<Rightarrow> heap \<times> nat" where
  "dcp h a = (h @ [h ! a], length h)"

text \<open>The position a list index stands for: a negative index counts from the end.\<close>

definition norm_index :: "nat \<Rightarrow> int \<Rightarrow> int" where
  "norm_index n ind = (if ind < 0 then int n + ind else ind)"

text \<open>\<^verbatim>\<open>xs[ind] = v\<close> on a list.\<close>

definition list_setitem :: "pyval list \<Rightarrow> int \<Rightarrow> pyval \<Rightarrow> error + pyval list" where
  "list_setitem xs ind v =
     (let j = norm_index (length xs) ind
      in if 0 \<le> j \<and> j < int (length xs) then Inr (xs[nat j := v]) else Inl IndexError)"

text \<open>
  \<^verbatim>\<open>for i,ind in enumerate(inds): new[ind] = newvec[i]\<close>, from position \<open>i\<close> on. The
  result is the heap after the loop and the exception, if any.
\<close>

fun assign_loop :: "heap \<Rightarrow> nat \<Rightarrow> nat \<Rightarrow> int list \<Rightarrow> nat \<Rightarrow> heap \<times> error option" where
  "assign_loop h new newvec [] i = (h, None)"
| "assign_loop h new newvec (ind # inds) i =
     (if length (h ! newvec) \<le> i then (h, Some IndexError)
      else (case list_setitem (h ! new) ind ((h ! newvec) ! i) of
              Inl e \<Rightarrow> (h, Some e)
            | Inr xs \<Rightarrow> assign_loop (h[new := xs]) new newvec inds (Suc i)))"

text \<open>
  \<^verbatim>\<open>vec2obj(orig, newvec, inds)\<close>: \<open>orig\<close> and \<open>newvec\<close> are addresses of list objects
  or \<^verbatim>\<open>None\<close>, \<open>inds\<close> is a list of integer positions or \<^verbatim>\<open>None\<close>. The result is
  the heap after the call and the address of the new object, or the exception.
\<close>

definition vec2obj :: "heap \<Rightarrow> nat option \<Rightarrow> nat option \<Rightarrow> int list option \<Rightarrow> heap \<times> (error + nat)" where
  "vec2obj h orig newvec inds =
     (case orig of
        None \<Rightarrow> (h, Inl NoOriginal)
      | Some orig_a \<Rightarrow>
     (case newvec of
        None \<Rightarrow> (h, Inl NoVector)
      | Some newvec_a \<Rightarrow>
          let lenorig = length (h ! orig_a); lennew = length (h ! newvec_a) in
          if lennew \<noteq> lenorig \<and> inds = None then (h, Inl (LengthsMustMatch lenorig lennew))
          else
            (case (case inds of
                     None \<Rightarrow> Inr (map int [0..<lennew])
                   | Some idxs \<Rightarrow>
                       if idxs = [] then Inl ValueError
                       else if int lenorig \<le> Max (set idxs)
                         then Inl (MaxIndexTooLarge (Max (set idxs)) lenorig)
                       else Inr idxs) of
               Inl e \<Rightarrow> (h, Inl e)
             | Inr idxs \<Rightarrow>
                 (case dcp h orig_a of
                    (h1, new) \<Rightarrow>
                      (case assign_loop h1 new newvec_a idxs 0 of
                         (h2, None) \<Rightarrow> (h2, Inr new)
                       | (h2, Some e) \<Rightarrow> (h2, Inl e))))))"

text \<open>
  The assignments of the loop, one after the other, on the contents of an object: the
  \<open>i\<close>-th element of the vector goes to the \<open>i\<close>-th index.
\<close>

fun assign_all :: "pyval list \<Rightarrow> int list \<Rightarrow> pyval list \<Rightarrow> pyval list" where
  "assign_all xs (ind # inds) (v # vs) =
     assign_all (xs[nat (norm_index (length xs) ind) := v]) inds vs"
| "assign_all xs inds vs = xs"

text \<open>The indices the loop runs over: \<^verbatim>\<open>range(lennew)\<close> when none are given.\<close>

definition inds_used :: "heap \<Rightarrow> nat \<Rightarrow> int list option \<Rightarrow> int list" where
  "inds_used h newvec inds =
     (case inds of None \<Rightarrow> map int [0..<length (h ! newvec)] | Some idxs \<Rightarrow> idxs)"

section \<open>inclusiverange\<close>

text \<open>
  \<^verbatim>\<open>inclusiverange\<close> computes with Python's floating-point numbers and with numpy, both
  IEEE 754 doubles. A double is a finite real number that a double can hold, an infinity or
  not-a-number. The two zeros of a double are not told apart: they are equal in every
  comparison and differ only in a division by zero, which never happens below.
\<close>

datatype f64 = Fin real | PInf | NInf | NaN

text \<open>
  Python 3's \<^verbatim>\<open>round\<close> of a finite number: to the nearest integer, a half going to the
  even neighbour. (The module also runs on Python 2, whose \<^verbatim>\<open>round\<close> sends a half away
  from zero; the two agree wherever the quotient is not exactly a half.)
\<close>

definition py_round :: "real \<Rightarrow> int" where
  "py_round x =
     (let f = \<lfloor>x\<rfloor>; d = x - of_int f
      in if d < 1 / 2 then f else if 1 / 2 < d then f + 1 else if even f then f else f + 1)"

text \<open>
  Rounding a real number to a double, to the nearest with ties to the even significand. A
  double has 53 significant bits: in the binade of \<open>x\<close>, from \<open>2 ^ e\<close> up to \<open>2 ^ (e + 1)\<close>,
  the doubles are the multiples of \<open>2 ^ (e - 52)\<close>; below \<open>2 ^ (- 1022)\<close> they are the
  multiples of \<open>2 ^ (- 1074)\<close>. A result of \<open>2 ^ 1024\<close> or more is an infinity.
\<close>

definition ulp_exp :: "real \<Rightarrow> int" where
  "ulp_exp x = max \<lfloor>log 2 \<bar>x\<bar>\<rfloor> (- 1022) - 52"

definition rnd :: "real \<Rightarrow> f64" where
  "rnd x =
     (if x = 0 then Fin 0
      else let u = power_int 2 (ulp_exp x); r = of_int (py_round (x / u)) * u
           in if 2 ^ 1024 \<le> \<bar>r\<bar> then (if 0 < x then PInf else NInf) else Fin r)"

text \<open>
  The arithmetic of doubles: the exact result rounded, and the IEEE rules for infinities
  and not-a-number.
\<close>

fun fneg :: "f64 \<Rightarrow> f64" where
  "fneg (Fin a) = Fin (- a)"
| "fneg PInf = NInf"
| "fneg NInf = PInf"
| "fneg NaN = NaN"

fun fadd :: "f64 \<Rightarrow> f64 \<Rightarrow> f64" where
  "fadd (Fin a) (Fin b) = rnd (a + b)"
| "fadd NaN y = NaN"
| "fadd x NaN = NaN"
| "fadd PInf NInf = NaN"
| "fadd NInf PInf = NaN"
| "fadd PInf y = PInf"
| "fadd NInf y = NInf"
| "fadd x PInf = PInf"
| "fadd x NInf = NInf"

definition fsub :: "f64 \<Rightarrow> f64 \<Rightarrow> f64" where
  "fsub x y = fadd x (fneg y)"

fun fmul :: "f64 \<Rightarrow> f64 \<Rightarrow> f64" where
  "fmul (Fin a) (Fin b) = rnd (a * b)"
| "fmul NaN y = NaN"
| "fmul x NaN = NaN"
| "fmul (Fin a) y = (if a = 0 then NaN else if (0 < a) = (y = PInf) then PInf else NInf)"
| "fmul x (Fin b) = (if b = 0 then NaN else if (0 < b) = (x = PInf) then PInf else NInf)"
| "fmul x y = (if x = y then PInf else NInf)"

fun fdiv :: "f64 \<Rightarrow> f64 \<Rightarrow> f64" where
  "fdiv (Fin a) (Fin b) =
     (if b = 0 then (if a = 0 then NaN else if 0 < a then PInf else NInf) else rnd (a / b))"
| "fdiv NaN y = NaN"
| "fdiv x NaN = NaN"
| "fdiv (Fin a) y = Fin 0"
| "fdiv x (Fin b) = (if (0 \<le> b) = (x = PInf) then PInf else NInf)"
| "fdiv x y = NaN"

text \<open>
  A Python number: an integer of any size or a float.
\<close>

datatype pynum = PyInt int | PyFloat f64

text \<open>
  \<^verbatim>\<open>float(n)\<close> of an integer, also where an integer meets a float in an operation: the
  nearest double, \<^verbatim>\<open>OverflowError\<close> when there is none.
\<close>

definition int_to_float :: "int \<Rightarrow> error + f64" where
  "int_to_float n = (case rnd (of_int n) of Fin r \<Rightarrow> Inr (Fin r) | _ \<Rightarrow> Inl OverflowError)"

fun to_float :: "pynum \<Rightarrow> error + f64" where
  "to_float (PyInt n) = int_to_float n"
| "to_float (PyFloat x) = Inr x"

text \<open>
  \<^verbatim>\<open>x - y\<close>: exact on two integers, on doubles otherwise.
\<close>

fun py_sub :: "pynum \<Rightarrow> pynum \<Rightarrow> error + pynum" where
  "py_sub (PyInt a) (PyInt b) = Inr (PyInt (a - b))"
| "py_sub x y =
     (case to_float x of
        Inl e \<Rightarrow> Inl e
      | Inr a \<Rightarrow> (case to_float y of Inl e \<Rightarrow> Inl e | Inr b \<Rightarrow> Inr (PyFloat (fsub a b))))"

text \<open>
  \<^verbatim>\<open>x / y\<close> with a float \<open>y\<close>: \<open>x\<close> becomes a float first, and a zero divisor raises
  \<^verbatim>\<open>ZeroDivisionError\<close>.
\<close>

definition py_truediv :: "pynum \<Rightarrow> f64 \<Rightarrow> error + f64" where
  "py_truediv x y =
     (case to_float x of
        Inl e \<Rightarrow> Inl e
      | Inr a \<Rightarrow> if y = Fin 0 then Inl ZeroDivisionError else Inr (fdiv a y))"

text \<open>
  \<^verbatim>\<open>round(q)\<close> of a float: an infinity raises \<^verbatim>\<open>OverflowError\<close>, not-a-number
  \<^verbatim>\<open>ValueError\<close>.
\<close>

fun round_float :: "f64 \<Rightarrow> error + int" where
  "round_float (Fin r) = Inr (py_round r)"
| "round_float NaN = Inl ValueError"
| "round_float x = Inl OverflowError"

text \<open>
  \<^verbatim>\<open>numpy.linspace(start, stop, num)\<close>, after numpy's implementation: a negative
  \<open>num\<close> raises \<^verbatim>\<open>ValueError\<close>; \<open>start\<close> and \<open>stop\<close> become doubles
  (\<^verbatim>\<open>start * 1.\<close>); \<^verbatim>\<open>y = arange(0, num)\<close> is multiplied by
  \<^verbatim>\<open>step = delta / div\<close> with \<^verbatim>\<open>delta = stop - start\<close> and \<^verbatim>\<open>div = num - 1\<close> (by
  \<^verbatim>\<open>delta\<close> after a division by \<^verbatim>\<open>div\<close> when the step is zero, and by \<^verbatim>\<open>delta\<close>
  alone when \<open>num\<close> is at most 1), \<open>start\<close> is added, and the last point is set to
  \<open>stop\<close> when there is more than one. The result is the list of the doubles of the array;
  the memory an array needs and its element type are not modelled.
\<close>

definition linspace :: "pynum \<Rightarrow> pynum \<Rightarrow> int \<Rightarrow> error + f64 list" where
  "linspace start stop num =
     (if num < 0 then Inl ValueError
      else (case to_float start of
              Inl e \<Rightarrow> Inl e
            | Inr s \<Rightarrow>
          (case to_float stop of
              Inl e \<Rightarrow> Inl e
            | Inr t \<Rightarrow>
                let n = nat num;
                    divisor = rnd (real (n - 1));
                    delta = fsub t s;
                    y = map (\<lambda>k. rnd (real k)) [0..<n];
                    y1 = (if 1 < num then
                            let step = fdiv delta divisor
                            in if step = Fin 0 then map (\<lambda>v. fmul (fdiv v divisor) delta) y
                               else map (\<lambda>v. fmul v step) y
                          else map (\<lambda>v. fmul v delta) y);
                    y2 = map (\<lambda>v. fadd v s) y1
                in Inr (if 1 < num then y2[n - 1 := t] else y2))))"

text \<open>
  \<^verbatim>\<open>kwargs.get(name, default)\<close>. An argument is a number or \<^verbatim>\<open>None\<close>.
\<close>

definition kwargs_get :: "(string \<rightharpoonup> pynum option) \<Rightarrow> string \<Rightarrow> pynum option \<Rightarrow> pynum option" where
  "kwargs_get kwargs name dflt = (case kwargs name of None \<Rightarrow> dflt | Some v \<Rightarrow> v)"

text \<open>
  The positional arguments of \<^verbatim>\<open>inclusiverange(*args, **kwargs)\<close>. With one argument the
  code runs \<^verbatim>\<open>start, step = None\<close>, which raises \<^verbatim>\<open>TypeError\<close>.
\<close>

definition handle_args :: "pynum option list \<Rightarrow> error + (pynum option \<times> pynum option \<times> pynum option)" where
  "handle_args args =
     (if length args = 0 then Inr (None, None, None)
      else if length args = 1 then Inl TypeError
      else if length args = 2 then Inr (args ! 0, args ! 1, None)
      else if length args = 3 then Inr (args ! 0, args ! 1, args ! 2)
      else Inl TooManyArguments)"

text \<open>
  \<^verbatim>\<open>int(round((stop-start)/float(step))+1)\<close>, the number of points.
\<close>

definition count_points :: "pynum \<Rightarrow> pynum \<Rightarrow> pynum \<Rightarrow> error + int" where
  "count_points start stop step =
     (case py_sub stop start of
        Inl e \<Rightarrow> Inl e
      | Inr d \<Rightarrow>
          (case to_float step of
             Inl e \<Rightarrow> Inl e
           | Inr fstep \<Rightarrow>
               (case py_truediv d fstep of
                  Inl e \<Rightarrow> Inl e
                | Inr q \<Rightarrow> (case round_float q of Inl e \<Rightarrow> Inl e | Inr r \<Rightarrow> Inr (r + 1)))))"

definition inclusiverange :: "pynum option list \<Rightarrow> (string \<rightharpoonup> pynum option) \<Rightarrow> error + f64 list" where
  "inclusiverange args kwargs =
     (case handle_args args of
        Inl e \<Rightarrow> Inl e
      | Inr (start0, stop0, step0) \<Rightarrow>
          let start = (case kwargs_get kwargs ''start'' start0 of None \<Rightarrow> PyInt 0 | Some x \<Rightarrow> x);
              stop = (case kwargs_get kwargs ''stop'' stop0 of None \<Rightarrow> PyInt 1 | Some x \<Rightarrow> x);
              step = (case kwargs_get kwargs ''step'' step0 of None \<Rightarrow> PyInt 1 | Some x \<Rightarrow> x)
          in (case count_points start stop step of
                Inl e \<Rightarrow> Inl e
              | Inr num \<Rightarrow> linspace start stop num))"

section \<open>Properties of the nested dictionary functions\<close>

lemma reduce_safe_none: "reduce (getnested_step True) ks PNone = Inr PNone"
  by (induction ks) (simp_all add: getnested_step_def)

lemma getnested_Nil: "getnested tree [] safe = Inr tree"
  by (simp add: getnested_def)

lemma getnested_reached: "descend tree path = Reached v \<Longrightarrow> getnested tree path safe = Inr v"
proof (induction path arbitrary: tree)
  case Nil
  then show ?case by (simp add: getnested_def)
next
  case (Cons k ks)
  then show ?case
    by (cases tree) (auto simp: getnested_def getnested_step_def split: if_splits option.splits)
qed

lemma getnested_empty_mapping:
  "descend tree path = EmptyMapping \<Longrightarrow>
   getnested tree path False = Inl KeyError \<and> getnested tree path True = Inr PNone"
proof (induction path arbitrary: tree)
  case Nil
  then show ?case by simp
next
  case (Cons k ks)
  then show ?case
    by (cases tree) (auto simp: getnested_def getnested_step_def reduce_safe_none split: if_splits option.splits)
qed

lemma getnested_null_level:
  "descend tree path = NullLevel \<Longrightarrow>
   getnested tree path False = Inl TypeError \<and> getnested tree path True = Inr PNone"
proof (induction path arbitrary: tree)
  case Nil
  then show ?case by simp
next
  case (Cons k ks)
  then show ?case
    by (cases tree) (auto simp: getnested_def getnested_step_def reduce_safe_none split: if_splits option.splits)
qed

lemma getnested_non_mapping:
  "descend tree path = NonMapping \<Longrightarrow> getnested tree path safe = Inl AttributeError"
proof (induction path arbitrary: tree)
  case Nil
  then show ?case by simp
next
  case (Cons k ks)
  then show ?case
    by (cases tree) (auto simp: getnested_def getnested_step_def split: if_splits option.splits)
qed

lemma getnested_missing_safe:
  "descend tree path = MissingKey \<Longrightarrow> getnested tree path True = Inr PNone"
proof (induction path arbitrary: tree)
  case Nil
  then show ?case by simp
next
  case (Cons k ks)
  then show ?case
    by (cases tree) (auto simp: getnested_def getnested_step_def reduce_safe_none split: if_splits option.splits)
qed

lemma getnested_missing_unsafe:
  "descend tree path = MissingKey \<Longrightarrow>
   getnested tree path False = Inr PNone \<or> getnested tree path False = Inl TypeError"
proof (induction path arbitrary: tree)
  case Nil
  then show ?case by simp
next
  case (Cons k ks)
  then show ?case
    apply (cases tree) apply (auto simp: getnested_def getnested_step_def split: if_splits option.splits)
    apply (cases ks) apply (auto simp: getnested_step_def)
    done
qed

lemma update_not_Nil: "AList.update k v kvs \<noteq> []"
  by (cases kvs) auto

lemma map_of_update_same: "map_of (AList.update k v kvs) k = Some v"
  by (simp add: update_conv')

lemma descend_put_at:
  "descend tree ks = Reached d \<Longrightarrow> descend (put_at tree ks new) ks = Reached new"
proof (induction ks arbitrary: tree)
  case Nil
  then show ?case by simp
next
  case (Cons k ks)
  then show ?case
    by (cases tree) (auto simp: update_not_Nil map_of_update_same split: if_splits option.splits)
qed

lemma descend_append:
  "descend tree ks = Reached d \<Longrightarrow> descend tree (ks @ ks') = descend d ks'"
proof (induction ks arbitrary: tree)
  case Nil
  then show ?case by simp
next
  case (Cons k ks)
  then show ?case
    by (cases tree) (auto split: if_splits option.splits)
qed

lemma setnested_missing:
  assumes "keylist \<noteq> []" and "descend tree (butlast keylist) = MissingKey"
  shows "setnested tree keylist v = (tree, Some TypeError)"
  using assms getnested_missing_unsafe [of tree "butlast keylist"]
  by (auto simp: setnested_def)

lemma setnested_empty_mapping:
  assumes "descend tree (butlast keylist) = EmptyMapping"
  shows "setnested tree keylist v = (tree, Some KeyError)"
  using assms getnested_empty_mapping [of tree "butlast keylist"]
  by (simp add: setnested_def)

lemma setnested_null_level:
  assumes "descend tree (butlast keylist) = NullLevel"
  shows "setnested tree keylist v = (tree, Some TypeError)"
  using assms getnested_null_level [of tree "butlast keylist"]
  by (simp add: setnested_def)

lemma setnested_non_mapping:
  assumes "descend tree (butlast keylist) = NonMapping"
  shows "setnested tree keylist v = (tree, Some AttributeError)"
  using assms getnested_non_mapping [of tree "butlast keylist" False]
  by (simp add: setnested_def)

lemma setnested_present:
  assumes "keylist \<noteq> []" and "descend tree (butlast keylist) = Reached (PDict kvs)"
  shows "setnested tree keylist v =
           (put_at tree (butlast keylist) (PDict (AList.update (last keylist) v kvs)), None)"
  using assms getnested_reached [of tree "butlast keylist" "PDict kvs" False]
  by (simp add: setnested_def)

lemma descend_after_put:
  assumes "keylist \<noteq> []" and "descend tree (butlast keylist) = Reached d"
  shows "descend (put_at tree (butlast keylist) (PDict (AList.update (last keylist) v kvs))) keylist
           = Reached v"
proof -
  let ?t = "put_at tree (butlast keylist) (PDict (AList.update (last keylist) v kvs))"
  have "descend ?t (butlast keylist) = Reached (PDict (AList.update (last keylist) v kvs))"
    using assms(2) by (rule descend_put_at)
  then have "descend ?t (butlast keylist @ [last keylist])
               = descend (PDict (AList.update (last keylist) v kvs)) [last keylist]"
    by (rule descend_append)
  then show ?thesis
    using assms(1) by (simp add: update_not_Nil map_of_update_same)
qed

lemma levels_ok_empty: "levels_ok (PDict []) ks"
  by (cases ks) auto

lemma makenested_loop_ok:
  "levels_ok cur keys \<Longrightarrow>
   \<exists>cur'. makenested_loop cur keys lastkey item = (cur', None) \<and>
          descend cur' (keys @ [lastkey]) = Reached item"
proof (induction keys arbitrary: cur)
  case Nil
  then show ?case
    by (cases cur) (auto simp: update_not_Nil map_of_update_same)
next
  case (Cons key keys)
  from Cons.prems obtain kvs where cur: "cur = PDict kvs"
    by (cases cur) auto
  show ?case
  proof (cases "map_of kvs key")
    case None
    then have absent: "key \<notin> fst ` set kvs"
      by (simp add: map_of_eq_None_iff)
    from Cons.IH [OF levels_ok_empty] obtain child'
      where child: "makenested_loop (PDict []) keys lastkey item = (child', None)"
        "descend child' (keys @ [lastkey]) = Reached item"
      by blast
    with cur None absent show ?thesis
      by (simp add: update_not_Nil map_of_update_same)
  next
    case (Some c)
    then have present: "key \<in> fst ` set kvs"
      by (metis map_of_eq_None_iff option.distinct(1))
    from Cons.prems cur Some have "levels_ok c keys"
      by simp
    from Cons.IH [OF this] obtain child'
      where child: "makenested_loop c keys lastkey item = (child', None)"
        "descend child' (keys @ [lastkey]) = Reached item"
      by blast
    with cur Some present show ?thesis
      by (simp add: update_not_Nil map_of_update_same)
  qed
qed

lemma update_absent: "map_of kvs k = None \<Longrightarrow> AList.update k v kvs = kvs @ [(k, v)]"
  by (induction kvs) (auto split: if_splits)

lemma update_appended:
  "map_of kvs k = None \<Longrightarrow> AList.update k v (kvs @ [(k, w)]) = kvs @ [(k, v)]"
  by (induction kvs) (auto split: if_splits)

lemma makenested_loop_empty:
  "makenested_loop (PDict []) keys lastkey item = (nest (keys @ [lastkey]) item, None)"
  by (induction keys) simp_all

lemma makenested_loop_absent:
  assumes "map_of kvs (hd (keys @ [lastkey])) = None"
  shows "makenested_loop (PDict kvs) keys lastkey item
           = (PDict (kvs @ [(hd (keys @ [lastkey]), nest (tl (keys @ [lastkey])) item)]), None)"
proof (cases keys)
  case Nil
  with assms show ?thesis
    by (simp add: update_absent)
next
  case (Cons key keys')
  with assms have absent: "map_of kvs key = None"
    by simp
  then have notin: "key \<notin> fst ` set kvs"
    by (simp add: map_of_eq_None_iff)
  from absent have "map_of (kvs @ [(key, PDict [])]) key = Some (PDict [])"
    by (simp add: map_add_Some_iff)
  with Cons absent notin show ?thesis
    by (simp add: update_absent update_appended makenested_loop_empty)
qed

lemma makenested_absent:
  assumes "path \<noteq> []" and "map_of kvs (hd path) = None"
  shows "makenested (PDict kvs) path v = (PDict (kvs @ [(hd path, nest (tl path) v)]), None)"
  using assms makenested_loop_absent [of kvs "butlast path" "last path" v]
  by (simp add: makenested_def)

lemma iter_items_leaf_paths:
  "iter_items kvs previous = map ((@) previous) (leaf_paths_items kvs)"
proof (induction kvs previous rule: iter_items.induct)
  case (1 previous)
  then show ?case by simp
next
  case (2 k sub rest previous)
  then show ?case by simp
qed simp_all

lemma is_leaf_path_nondict: "\<not> is_dict v \<Longrightarrow> is_leaf_path v p \<longleftrightarrow> p = []"
  by (cases p; cases v) (auto simp: is_leaf_path_def)

lemma is_leaf_path_Nil_dict: "\<not> is_leaf_path (PDict kvs) []"
  by (simp add: is_leaf_path_def)

lemma is_leaf_path_empty: "\<not> is_leaf_path (PDict []) p"
  by (cases p) (auto simp: is_leaf_path_def)

lemma is_leaf_path_Cons:
  "is_leaf_path (PDict kvs) (k # p) \<longleftrightarrow> (\<exists>c. map_of kvs k = Some c \<and> is_leaf_path c p)"
  by (cases kvs) (auto simp: is_leaf_path_def split: option.splits)

lemma set_leaf_paths_aux:
  "wf_tree v \<Longrightarrow> (p \<in> set (leaf_paths v) \<longleftrightarrow> is_leaf_path v p)"
  "wf_tree (PDict kvs) \<Longrightarrow> (p \<in> set (leaf_paths_items kvs) \<longleftrightarrow> is_leaf_path (PDict kvs) p)"
proof (induction v and kvs arbitrary: p and p rule: leaf_paths_leaf_paths_items.induct)
  case (1 kvs)
  then show ?case by simp
next
  case (4 k c rest)
  have absent: "map_of rest k = None"
    using "4.prems" by (simp add: map_of_eq_None_iff)
  have wfc: "wf_tree c" and wfr: "wf_tree (PDict rest)"
    using "4.prems" by simp_all
  show ?case
  proof (cases p)
    case Nil
    then show ?thesis
      using "4.IH"(2) [OF wfr, of "[]"] by (auto simp: is_leaf_path_Nil_dict)
  next
    case (Cons k' q)
    then show ?thesis
      using "4.IH"(1) [OF wfc, of q] "4.IH"(2) [OF wfr, of p] absent
      by (auto simp: is_leaf_path_Cons)
  qed
qed (auto simp: is_leaf_path_nondict is_leaf_path_empty)

lemma distinct_leaf_paths_aux:
  "wf_tree v \<Longrightarrow> distinct (leaf_paths v)"
  "wf_tree (PDict kvs) \<Longrightarrow> distinct (leaf_paths_items kvs)"
proof (induction v and kvs rule: leaf_paths_leaf_paths_items.induct)
  case (1 kvs)
  then show ?case by simp
next
  case (4 k c rest)
  have absent: "map_of rest k = None"
    using "4.prems" by (simp add: map_of_eq_None_iff)
  have wfc: "wf_tree c" and wfr: "wf_tree (PDict rest)"
    using "4.prems" by simp_all
  have "k # q \<notin> set (leaf_paths_items rest)" for q
    using set_leaf_paths_aux(2) [OF wfr, of "k # q"] absent by (simp add: is_leaf_path_Cons)
  then have "(#) k ` set (leaf_paths c) \<inter> set (leaf_paths_items rest) = {}"
    by auto
  then show ?case
    using "4.IH"(1) [OF wfc] "4.IH"(2) [OF wfr] by (simp add: distinct_map)
qed simp_all

lemma leaf_paths_items_first_key:
  "q \<in> set (leaf_paths_items kvs) \<Longrightarrow> \<exists>k' q'. q = k' # q' \<and> k' \<in> fst ` set kvs"
proof (induction kvs)
  case Nil
  then show ?case by simp
next
  case (Cons kv kvs)
  obtain k c where kv: "kv = (k, c)"
    by (cases kv)
  show ?case
  proof (cases "q \<in> set (leaf_paths_items kvs)")
    case True
    from Cons.IH [OF this] show ?thesis by auto
  next
    case False
    with Cons.prems kv obtain q' where "q = k # q'" by auto
    with kv show ?thesis by simp
  qed
qed

lemma key_positions_first:
  "key_positions (PDict ((k, c) # rest)) (k # p) = 0 # key_positions c p"
  by simp

lemma key_positions_later:
  "k' \<noteq> k \<Longrightarrow>
   key_positions (PDict ((k, c) # rest)) (k' # p)
     = Suc (hd (key_positions (PDict rest) (k' # p))) # tl (key_positions (PDict rest) (k' # p))"
  by simp

lemma sorted_leaf_paths_aux:
  "wf_tree v \<Longrightarrow> sorted_wrt ord_class.lexordp (map (key_positions v) (leaf_paths v))"
  "wf_tree (PDict kvs) \<Longrightarrow>
     sorted_wrt ord_class.lexordp (map (key_positions (PDict kvs)) (leaf_paths_items kvs))"
proof (induction v and kvs rule: leaf_paths_leaf_paths_items.induct)
  case (1 kvs)
  then show ?case by simp
next
  case (4 k c rest)
  have wfc: "wf_tree c" and wfr: "wf_tree (PDict rest)" and fresh: "k \<notin> fst ` set rest"
    using "4.prems" by auto
  let ?t = "PDict ((k, c) # rest)"
  have first: "map (key_positions ?t) (map ((#) k) (leaf_paths c))
                 = map ((#) 0) (map (key_positions c) (leaf_paths c))"
    by simp
  have later: "key_positions ?t q
                 = Suc (hd (key_positions (PDict rest) q)) # tl (key_positions (PDict rest) q)
               \<and> key_positions (PDict rest) q \<noteq> []"
    if "q \<in> set (leaf_paths_items rest)" for q
  proof -
    from leaf_paths_items_first_key [OF that] obtain k' q'
      where q: "q = k' # q'" "k' \<in> fst ` set rest"
      by blast
    with fresh have "k' \<noteq> k" by auto
    with q(1) show ?thesis by simp
  qed
  have s1: "sorted_wrt ord_class.lexordp (map (key_positions ?t) (map ((#) k) (leaf_paths c)))"
    using "4.IH"(1) [OF wfc] unfolding first by (simp add: sorted_wrt_map)
  have s2: "sorted_wrt ord_class.lexordp (map (key_positions ?t) (leaf_paths_items rest))"
  proof -
    have "ord_class.lexordp (key_positions ?t p) (key_positions ?t q)"
      if "p \<in> set (leaf_paths_items rest)" "q \<in> set (leaf_paths_items rest)"
        "ord_class.lexordp (key_positions (PDict rest) p) (key_positions (PDict rest) q)" for p q
    proof -
      from later [OF that(1)] later [OF that(2)] that(3) show ?thesis
        by (cases "key_positions (PDict rest) p"; cases "key_positions (PDict rest) q") auto
    qed
    with "4.IH"(2) [OF wfr] show ?thesis
      by (simp add: sorted_wrt_map) (erule sorted_wrt_mono_rel [rotated], blast)
  qed
  have cross: "ord_class.lexordp (0 # key_positions c p) (key_positions ?t q)"
    if "q \<in> set (leaf_paths_items rest)" for p q
    using later [OF that] by simp
  have "sorted_wrt ord_class.lexordp
          (map (key_positions ?t) (map ((#) k) (leaf_paths c)) @
           map (key_positions ?t) (leaf_paths_items rest))"
    unfolding sorted_wrt_append using s1 s2 cross by auto
  then show ?case
    by simp
qed simp_all

lemma descend_split:
  "descend tree (q @ r) = Reached v \<Longrightarrow> \<exists>d. descend tree q = Reached d \<and> descend d r = Reached v"
proof (induction q arbitrary: tree)
  case Nil
  then show ?case by simp
next
  case (Cons k q)
  then show ?case
    by (cases tree) (auto split: if_splits option.splits)
qed

lemma leaf_path_not_through_empty:
  assumes "is_leaf_path tree p" and "prefix q p"
  shows "descend tree q \<noteq> Reached (PDict [])"
proof
  assume emp: "descend tree q = Reached (PDict [])"
  from assms(2) obtain r where p: "p = q @ r"
    by (auto simp: prefix_def)
  from assms(1) obtain v where v: "descend tree p = Reached v" "\<not> is_dict v"
    by (auto simp: is_leaf_path_def split: descent.splits)
  from descend_split [of tree q r v] v(1) p emp have "descend (PDict []) r = Reached v"
    by auto
  with v(2) show False
    by (cases r) auto
qed

lemma iter_items_append:
  "iter_items (kvs1 @ kvs2) previous = iter_items kvs1 previous @ iter_items kvs2 previous"
  by (simp add: iter_items_leaf_paths) (induction kvs1, auto)

lemma leaf_paths_items_all_empty:
  "set (map snd kvs) \<subseteq> {PDict []} \<Longrightarrow> leaf_paths_items kvs = []"
  by (induction kvs) auto

section \<open>Properties of inclusiverange\<close>

lemma py_round_of_int: "py_round (real_of_int n) = n"
  by (simp add: py_round_def)

lemma floor_log2_bounds:
  assumes "x \<noteq> 0"
  shows "power_int 2 \<lfloor>log 2 \<bar>x\<bar>\<rfloor> \<le> \<bar>x\<bar>" and "\<bar>x\<bar> < power_int 2 (\<lfloor>log 2 \<bar>x\<bar>\<rfloor> + 1)"
proof -
  from assms have pos: "0 < \<bar>x\<bar>" by simp
  have "(2::real) powr real_of_int \<lfloor>log 2 \<bar>x\<bar>\<rfloor> \<le> \<bar>x\<bar> \<and>
        \<bar>x\<bar> < 2 powr (real_of_int \<lfloor>log 2 \<bar>x\<bar>\<rfloor> + 1)"
    using floor_log_eq_powr_iff [OF pos, of 2 "\<lfloor>log 2 \<bar>x\<bar>\<rfloor>"] by simp
  moreover have "(2::real) powr real_of_int k = power_int 2 k" for k
    by (rule powr_real_of_int') simp_all
  moreover have "real_of_int \<lfloor>log 2 \<bar>x\<bar>\<rfloor> + 1 = real_of_int (\<lfloor>log 2 \<bar>x\<bar>\<rfloor> + 1)"
    by simp
  ultimately show "power_int 2 \<lfloor>log 2 \<bar>x\<bar>\<rfloor> \<le> \<bar>x\<bar>"
    and "\<bar>x\<bar> < power_int 2 (\<lfloor>log 2 \<bar>x\<bar>\<rfloor> + 1)"
    by metis+
qed

lemma floor_log2_eq:
  assumes "power_int 2 e \<le> \<bar>x\<bar>" and "\<bar>x\<bar> < power_int 2 (e + 1)"
  shows "\<lfloor>log 2 \<bar>x\<bar>\<rfloor> = e"
proof -
  have pos: "0 < \<bar>x\<bar>"
    using assms(1) zero_less_power_int [of "2::real" e] by linarith
  have p: "(2::real) powr real_of_int k = power_int 2 k" for k
    by (rule powr_real_of_int') simp_all
  have "real_of_int e + 1 = real_of_int (e + 1)" by simp
  with assms p have "(2::real) powr real_of_int e \<le> \<bar>x\<bar> \<and> \<bar>x\<bar> < 2 powr (real_of_int e + 1)"
    by metis
  with floor_log_eq_powr_iff [OF pos, of 2 e] show ?thesis by simp
qed

lemma ulp_exp_le:
  assumes "m \<noteq> 0" and "\<bar>m\<bar> < 2 ^ 53" and "- 1074 \<le> k"
  shows "ulp_exp (of_int m * power_int 2 k) \<le> k"
proof -
  let ?x = "real_of_int m * power_int 2 k"
  have x0: "?x \<noteq> 0" using assms(1) by simp
  let ?e = "\<lfloor>log 2 \<bar>?x\<bar>\<rfloor>"
  have "?e < k + 53"
  proof (rule ccontr)
    assume "\<not> ?e < k + 53"
    then have "k + 53 \<le> ?e" by simp
    then have "power_int (2::real) (k + 53) \<le> power_int 2 ?e"
      by (intro power_int_increasing) simp_all
    also have "\<dots> \<le> \<bar>?x\<bar>"
      by (rule floor_log2_bounds(1) [OF x0])
    finally have "power_int (2::real) (k + 53) \<le> \<bar>?x\<bar>" .
    moreover have "\<bar>?x\<bar> = real_of_int \<bar>m\<bar> * power_int 2 k"
      by (simp add: abs_mult)
    moreover have "real_of_int \<bar>m\<bar> < 2 ^ 53"
      using assms(2) by (metis of_int_less_numeral_power_cancel_iff)
    then have "real_of_int \<bar>m\<bar> * power_int 2 k < 2 ^ 53 * power_int 2 k"
      by (intro mult_strict_right_mono) simp_all
    moreover have "power_int (2::real) (k + 53) = 2 ^ 53 * power_int 2 k"
      by (simp add: power_int_add)
    ultimately show False by linarith
  qed
  with assms(3) show ?thesis
    by (simp add: ulp_exp_def)
qed

lemma scaled_int:
  assumes "u \<le> k"
  shows "real_of_int m * power_int 2 k / power_int 2 u = of_int (m * 2 ^ nat (k - u))"
proof -
  have "power_int (2::real) k / power_int 2 u = power_int 2 (k - u)"
    by (simp add: power_int_diff)
  also have "\<dots> = 2 ^ nat (k - u)"
    using assms by (simp add: power_int_def)
  finally have e: "power_int (2::real) k / power_int 2 u = 2 ^ nat (k - u)" .
  have "real_of_int m * power_int 2 k / power_int 2 u
          = real_of_int m * (power_int 2 k / power_int 2 u)"
    by simp
  also have "\<dots> = real_of_int m * 2 ^ nat (k - u)"
    by (simp only: e)
  also have "\<dots> = of_int (m * 2 ^ nat (k - u))"
    by simp
  finally show ?thesis .
qed

lemma rnd_exact:
  assumes "\<bar>m\<bar> < 2 ^ 53" and "- 1074 \<le> k"
    and "\<bar>real_of_int m * power_int 2 k\<bar> < 2 ^ 1024"
  shows "rnd (of_int m * power_int 2 k) = Fin (of_int m * power_int 2 k)"
proof (cases "m = 0")
  case True
  then show ?thesis by (simp add: rnd_def)
next
  case False
  let ?x = "real_of_int m * power_int 2 k"
  let ?u = "ulp_exp ?x"
  have le: "?u \<le> k" using False assms(1,2) by (rule ulp_exp_le)
  note q = scaled_int [OF le, of m]
  have u0: "power_int (2::real) ?u \<noteq> 0"
    by simp
  have "real_of_int (m * 2 ^ nat (k - ?u)) * power_int 2 ?u = ?x"
    using q nonzero_divide_eq_eq [OF u0] by metis
  then have r: "of_int (py_round (?x / power_int 2 ?u)) * power_int 2 ?u = ?x"
    by (simp only: q py_round_of_int)
  from False have "?x \<noteq> 0" by simp
  with r assms(3) show ?thesis
    by (simp add: rnd_def Let_def)
qed

lemma rnd_int:
  assumes "\<bar>n\<bar> \<le> 2 ^ 53"
  shows "rnd (of_int n) = Fin (of_int n)"
proof (cases "\<bar>n\<bar> < 2 ^ 53")
  case True
  have "\<bar>real_of_int n\<bar> < 2 ^ 53"
    using True by (metis of_int_abs of_int_less_numeral_power_cancel_iff)
  also have "(2::real) ^ 53 < 2 ^ 1024"
    by simp
  finally have "\<bar>real_of_int n * power_int 2 0\<bar> < 2 ^ 1024"
    by simp
  with rnd_exact [of n 0] True show ?thesis by simp
next
  case False
  with assms have "n = 2 ^ 53 \<or> n = - (2 ^ 53)"
    by linarith
  moreover have "rnd (of_int 1 * power_int 2 53) = Fin (of_int 1 * power_int 2 53)"
    by (rule rnd_exact) simp_all
  moreover have "rnd (of_int (- 1) * power_int 2 53) = Fin (of_int (- 1) * power_int 2 53)"
    by (rule rnd_exact) simp_all
  ultimately show ?thesis by auto
qed

lemma rnd_nat: "int k \<le> 2 ^ 53 \<Longrightarrow> rnd (real k) = Fin (real k)"
  using rnd_int [of "int k"] by simp

lemma int_to_float_int: "\<bar>n\<bar> \<le> 2 ^ 53 \<Longrightarrow> int_to_float n = Inr (Fin (of_int n))"
  by (simp add: int_to_float_def rnd_int)

lemma to_float_int: "\<bar>n\<bar> \<le> 2 ^ 53 \<Longrightarrow> to_float (PyInt n) = Inr (Fin (of_int n))"
  by (simp add: int_to_float_int)

lemma rnd_zero: "rnd 0 = Fin 0"
  by (simp add: rnd_def)

lemma rnd_one: "rnd 1 = Fin 1"
  using rnd_int [of 1] by simp

lemma count_points_ints:
  assumes "i \<le> j" and "j - i \<le> 2 ^ 53"
  shows "count_points (PyInt i) (PyInt j) (PyInt 1) = Inr (j - i + 1)"
proof -
  have d: "\<bar>j - i\<bar> \<le> 2 ^ 53"
    using assms by simp
  have "rnd (real_of_int (j - i)) = Fin (real_of_int (j - i))"
    using d by (rule rnd_int)
  then have q: "fdiv (Fin (real_of_int (j - i))) (Fin 1) = Fin (real_of_int (j - i))"
    by simp
  have one: "to_float (PyInt 1) = Inr (Fin 1)"
    using to_float_int [of 1] by simp
  have r: "py_round (real_of_int j - real_of_int i) = j - i"
    using py_round_of_int [of "j - i"] by simp
  show ?thesis
    unfolding count_points_def py_truediv_def
    by (simp only: py_sub.simps one to_float_int [OF d] q sum.case round_float.simps
        py_round_of_int f64.inject) (simp add: r)
qed

lemma linspace_ints:
  assumes "\<bar>i\<bar> \<le> 2 ^ 53" and "\<bar>j\<bar> \<le> 2 ^ 53" and "i \<le> j" and "j - i \<le> 2 ^ 53"
  shows "linspace (PyInt i) (PyInt j) (j - i + 1) = Inr (map (\<lambda>n. Fin (real_of_int n)) [i..j])"
proof (cases "i = j")
  case True
  have "rnd (real_of_int j) = Fin (real_of_int j)"
    using assms(2) by (rule rnd_int)
  with True assms(2) show ?thesis
    by (simp add: linspace_def int_to_float_int fsub_def rnd_zero)
next
  case False
  with assms(3) have lt: "i < j" by simp
  let ?D = "j - i"
  let ?n = "nat (?D + 1)"
  have n1: "?n - 1 = nat ?D" and D1: "1 < ?D + 1"
    using lt by simp_all
  have dD: "\<bar>?D\<bar> \<le> 2 ^ 53"
    using lt assms(4) by simp
  have divisor: "rnd (real (?n - 1)) = Fin (real_of_int ?D)"
    using rnd_int [OF dD] lt by (simp add: n1)
  have delta: "fsub (Fin (real_of_int j)) (Fin (real_of_int i)) = Fin (real_of_int ?D)"
    using rnd_int [OF dD] by (simp add: fsub_def)
  have step: "fdiv (Fin (real_of_int ?D)) (Fin (real_of_int ?D)) = Fin 1"
    using lt by (simp add: rnd_one)
  have elt: "fadd (fmul (rnd (real k)) (Fin 1)) (Fin (real_of_int i)) = Fin (real_of_int (i + int k))"
    if "k < ?n" for k
  proof -
    from that lt assms(4) have k: "int k \<le> 2 ^ 53" by simp
    have "\<bar>i + int k\<bar> \<le> 2 ^ 53"
      using that lt assms(1,2) by simp
    from rnd_int [OF this] have "rnd (real k + real_of_int i) = Fin (real_of_int (i + int k))"
      by (simp add: add.commute)
    then show ?thesis
      by (simp add: rnd_nat [OF k])
  qed
  let ?ys = "map (\<lambda>v. fadd v (Fin (real_of_int i)))
               (map (\<lambda>v. fmul v (Fin 1)) (map (\<lambda>k. rnd (real k)) [0..<?n]))"
  have ys: "?ys[?n - 1 := Fin (real_of_int j)] = map (\<lambda>n. Fin (real_of_int n)) [i..j]"
  proof (rule nth_equalityI)
    show "length (?ys[?n - 1 := Fin (real_of_int j)]) = length (map (\<lambda>n. Fin (real_of_int n)) [i..j])"
      using lt by simp
  next
    fix k
    assume "k < length (?ys[?n - 1 := Fin (real_of_int j)])"
    then have k: "k < ?n" by simp
    then have up: "[i..j] ! k = i + int k"
      by simp
    show "?ys[?n - 1 := Fin (real_of_int j)] ! k = map (\<lambda>n. Fin (real_of_int n)) [i..j] ! k"
    proof (cases "k = ?n - 1")
      case True
      with k lt up show ?thesis by (simp add: nth_list_update)
    next
      case False
      with k up lt elt [OF k] show ?thesis by (simp add: nth_list_update)
    qed
  qed
  have "linspace (PyInt i) (PyInt j) (?D + 1) = Inr (?ys[?n - 1 := Fin (real_of_int j)])"
    unfolding linspace_def Let_def
    by (simp only: to_float_int [OF assms(1)] to_float_int [OF assms(2)] sum.case divisor delta
        step D1 if_True) (use lt in simp)
  with ys show ?thesis by simp
qed

lemma upto_facts:
  assumes "i \<le> j"
  shows "length [i..j] = nat (j - i + 1)" and "hd [i..j] = i" and "last [i..j] = j"
    and "[i..j] \<noteq> []"
proof -
  show "length [i..j] = nat (j - i + 1)" by simp
  show "hd [i..j] = i" using assms by (simp add: upto_rec1)
  show "last [i..j] = j" using assms by (simp add: upto_rec2)
  show "[i..j] \<noteq> []" using assms by simp
qed

lemma ulp_exp_53:
  assumes "2 ^ 53 \<le> x" and "x < 2 ^ 54"
  shows "ulp_exp x = 1"
proof -
  have "power_int 2 53 \<le> \<bar>x\<bar>" and "\<bar>x\<bar> < power_int 2 (53 + 1)"
    using assms by simp_all
  then have "\<lfloor>log 2 \<bar>x\<bar>\<rfloor> = 53"
    by (rule floor_log2_eq)
  then show ?thesis
    by (simp add: ulp_exp_def)
qed

lemma rnd_tie_down: "rnd 9007199254740993 = Fin 9007199254740992"
proof -
  have u: "ulp_exp 9007199254740993 = 1"
    by (rule ulp_exp_53) simp_all
  have "\<lfloor>9007199254740993 / 2 :: real\<rfloor> = 4503599627370496"
    by simp
  then have "py_round (9007199254740993 / 2) = 4503599627370496"
    by (simp add: py_round_def Let_def)
  then show ?thesis
    by (simp add: rnd_def u Let_def)
qed

lemma rnd_tie_up: "rnd 9007199254740995 = Fin 9007199254740996"
proof -
  have u: "ulp_exp 9007199254740995 = 1"
    by (rule ulp_exp_53) simp_all
  have "\<lfloor>9007199254740995 / 2 :: real\<rfloor> = 4503599627370497"
    by simp
  then have "py_round (9007199254740995 / 2) = 4503599627370498"
    by (simp add: py_round_def Let_def)
  then show ?thesis
    by (simp add: rnd_def u Let_def)
qed

lemma rnd_small: "rnd 2 = Fin 2" "rnd 4 = Fin 4"
  using rnd_int [of 2] rnd_int [of 4] by simp_all

lemma rnd_above: "rnd 9007199254740992 = Fin 9007199254740992"
  "rnd 9007199254740994 = Fin 9007199254740994"
proof -
  show "rnd 9007199254740992 = Fin 9007199254740992"
    using rnd_int [of 9007199254740992] by simp
  have "rnd (of_int 4503599627370497 * power_int 2 1) = Fin (of_int 4503599627370497 * power_int 2 1)"
    by (rule rnd_exact) simp_all
  then show "rnd 9007199254740994 = Fin 9007199254740994"
    by simp
qed

lemma inclusiverange_beyond:
  "inclusiverange [Some (PyInt 9007199254740993), Some (PyInt 9007199254740995)] Map.empty
     = Inr [Fin 9007199254740992, Fin 9007199254740994, Fin 9007199254740996]"
proof -
  have c: "count_points (PyInt 9007199254740993) (PyInt 9007199254740995) (PyInt 1) = Inr 3"
    using count_points_ints [of 9007199254740993 9007199254740995] by simp
  have s: "to_float (PyInt 9007199254740993) = Inr (Fin 9007199254740992)"
    using rnd_tie_down by (simp add: int_to_float_def)
  have t: "to_float (PyInt 9007199254740995) = Inr (Fin 9007199254740996)"
    using rnd_tie_up by (simp add: int_to_float_def)
  have three: "[0..<3] = [0, 1, 2]"
    by (simp add: upt_rec)
  have l: "linspace (PyInt 9007199254740993) (PyInt 9007199254740995) 3
             = Inr [Fin 9007199254740992, Fin 9007199254740994, Fin 9007199254740996]"
    unfolding linspace_def Let_def
    by (simp only: s t sum.case) (simp add: three fsub_def rnd_small rnd_zero rnd_one rnd_above)
  show ?thesis
    by (simp add: inclusiverange_def handle_args_def kwargs_get_def c l)
qed

text \<open>
  The number of points is computed on doubles. For \<^verbatim>\<open>inclusiverange(0, 0.35, 0.1)\<close> the
  doubles nearest to 0.35 and 0.1 have the quotient 3.4999999999999996, which rounds to 3:
  there are 4 points, where the exact quotient 3.5 would round to 4.
\<close>

lemma rnd_quotient:
  "rnd ((3152519739159347 / 2 ^ 53) / (3602879701896397 / 2 ^ 55))
     = Fin (7881299347898367 / 2 ^ 51)"
proof -
  let ?q = "(3152519739159347 / 2 ^ 53) / (3602879701896397 / 2 ^ 55) :: real"
  have q: "?q = 12610078956637388 / 3602879701896397"
    by simp
  have "power_int 2 1 \<le> \<bar>?q\<bar>" and "\<bar>?q\<bar> < power_int 2 (1 + 1)"
    by (simp_all add: q)
  then have "\<lfloor>log 2 \<bar>?q\<bar>\<rfloor> = 1"
    by (rule floor_log2_eq)
  then have u: "ulp_exp ?q = - 51"
    by (simp add: ulp_exp_def)
  have s: "?q / power_int 2 (- 51) = 28395373445112336792086300852224 / 3602879701896397"
    by (simp add: power_int_minus)
  have "\<lfloor>28395373445112336792086300852224 / 3602879701896397 :: real\<rfloor> = 7881299347898367"
    by simp
  then have p: "py_round (28395373445112336792086300852224 / 3602879701896397) = 7881299347898367"
    by (simp add: py_round_def Let_def)
  have nz: "?q \<noteq> 0"
    by simp
  show ?thesis
    unfolding rnd_def Let_def u s p
    by (simp only: nz if_False) (simp add: power_int_minus)
qed

lemma rnd_double_035: "rnd (3152519739159347 / 2 ^ 53) = Fin (3152519739159347 / 2 ^ 53)"
  using rnd_exact [of 3152519739159347 "- 53"] by (simp add: power_int_minus field_simps)

lemma round_quotient: "py_round (7881299347898367 / 2 ^ 51) = 3"
proof -
  have "\<lfloor>7881299347898367 / 2 ^ 51 :: real\<rfloor> = 3"
    by simp
  then show ?thesis
    by (simp add: py_round_def Let_def)
qed

lemma count_points_floats:
  "count_points (PyInt 0) (PyFloat (Fin (3152519739159347 / 2 ^ 53)))
     (PyFloat (Fin (3602879701896397 / 2 ^ 55))) = Inr 4"
proof -
  have z: "int_to_float 0 = Inr (Fin 0)"
    using int_to_float_int [of 0] by simp
  have d: "py_sub (PyFloat (Fin (3152519739159347 / 2 ^ 53))) (PyInt 0)
             = Inr (PyFloat (Fin (3152519739159347 / 2 ^ 53)))"
    using rnd_double_035 by (simp add: z fsub_def)
  show ?thesis
    unfolding count_points_def d
    using rnd_quotient round_quotient by (simp add: py_truediv_def)
qed

lemma inclusiverange_one_arg: "length args = 1 \<Longrightarrow> inclusiverange args kwargs = Inl TypeError"
  by (simp add: inclusiverange_def handle_args_def)

lemma inclusiverange_ints:
  assumes "\<bar>i\<bar> \<le> 2 ^ 53" and "\<bar>j\<bar> \<le> 2 ^ 53" and "i \<le> j" and "j - i \<le> 2 ^ 53"
  shows "inclusiverange [Some (PyInt i), Some (PyInt j)] Map.empty
           = Inr (map (\<lambda>n. Fin (real_of_int n)) [i..j])"
    and "inclusiverange [Some (PyInt i), Some (PyInt j), Some (PyInt 1)] Map.empty
           = Inr (map (\<lambda>n. Fin (real_of_int n)) [i..j])"
  using count_points_ints [OF assms(3,4)] linspace_ints [OF assms]
  by (simp_all add: inclusiverange_def handle_args_def kwargs_get_def)

lemma int_to_float_error: "int_to_float n = Inl e \<Longrightarrow> e = OverflowError"
  by (auto simp: int_to_float_def split: f64.splits)

lemma to_float_error: "to_float x = Inl e \<Longrightarrow> e = OverflowError"
  by (cases x) (auto dest: int_to_float_error)

lemma py_sub_error: "py_sub x y = Inl e \<Longrightarrow> e = OverflowError"
  by (cases x; cases y) (auto split: sum.splits dest: int_to_float_error)

lemma round_float_error: "round_float q = Inl e \<Longrightarrow> e = OverflowError \<or> e = ValueError"
  by (cases q) auto

lemma count_points_not_TypeError: "count_points start stop step \<noteq> Inl TypeError"
  by (auto simp: count_points_def py_truediv_def
      split: sum.splits if_splits dest: to_float_error py_sub_error round_float_error)

lemma linspace_not_TypeError: "linspace a b n \<noteq> Inl TypeError"
  by (auto simp: linspace_def Let_def split: sum.splits dest: to_float_error)

lemma inclusiverange_accepted:
  "length args \<in> {0, 2, 3} \<Longrightarrow>
   (\<exists>t. handle_args args = Inr t) \<and> inclusiverange args kwargs \<noteq> Inl TypeError"
  by (auto simp: inclusiverange_def handle_args_def Let_def linspace_not_TypeError
      count_points_not_TypeError split: sum.splits)

section \<open>Properties of flattendict\<close>







section \<open>Properties of vec2obj\<close>

lemma list_setitem_Inr:
  "list_setitem xs ind v = Inr ys \<Longrightarrow>
   ys = xs[nat (norm_index (length xs) ind) := v]"
  by (auto simp: list_setitem_def Let_def split: if_splits)

lemma list_setitem_valid:
  "- int (length xs) \<le> ind \<Longrightarrow> ind < int (length xs) \<Longrightarrow>
   list_setitem xs ind v = Inr (xs[nat (norm_index (length xs) ind) := v])"
  by (auto simp: list_setitem_def norm_index_def Let_def)

lemma assign_loop_frame:
  "n \<le> new \<Longrightarrow> take n (fst (assign_loop h new newvec inds i)) = take n h"
proof (induction inds arbitrary: h i)
  case Nil
  then show ?case by simp
next
  case (Cons ind inds)
  then show ?case
    by (auto split: sum.splits)
qed

lemma assign_loop_length: "length (fst (assign_loop h new newvec inds i)) = length h"
proof (induction inds arbitrary: h i)
  case Nil
  then show ?case by simp
next
  case (Cons ind inds)
  then show ?case
    by (auto split: sum.splits)
qed

lemma assign_loop_result:
  "assign_loop h new newvec inds i = (h', None) \<Longrightarrow> new < length h \<Longrightarrow> newvec \<noteq> new \<Longrightarrow>
   h' = h[new := assign_all (h ! new) inds (drop i (h ! newvec))]"
proof (induction inds arbitrary: h i)
  case Nil
  then show ?case by simp
next
  case (Cons ind inds)
  from Cons.prems(1) have i: "i < length (h ! newvec)"
    by (auto split: if_splits)
  with Cons.prems(1) obtain xs where xs: "list_setitem (h ! new) ind ((h ! newvec) ! i) = Inr xs"
    and rest: "assign_loop (h[new := xs]) new newvec inds (Suc i) = (h', None)"
    by (auto split: sum.splits)
  from Cons.IH [OF rest] Cons.prems(2,3)
  have "h' = h[new := assign_all xs inds (drop (Suc i) (h ! newvec))]"
    by simp
  moreover have "drop i (h ! newvec) = (h ! newvec) ! i # drop (Suc i) (h ! newvec)"
    using i by (simp add: Cons_nth_drop_Suc)
  ultimately show ?case
    using list_setitem_Inr [OF xs] by simp
qed

lemma length_assign_all: "length (assign_all xs inds vs) = length xs"
  by (induction xs inds vs rule: assign_all.induct) simp_all

lemma assign_loop_succeeds:
  "new < length h \<Longrightarrow> newvec \<noteq> new \<Longrightarrow> i + length inds \<le> length (h ! newvec) \<Longrightarrow>
   \<forall>ind \<in> set inds. - int (length (h ! new)) \<le> ind \<and> ind < int (length (h ! new)) \<Longrightarrow>
   snd (assign_loop h new newvec inds i) = None"
proof (induction inds arbitrary: h i)
  case Nil
  then show ?case by simp
next
  case (Cons ind inds)
  let ?xs = "(h ! new)[nat (norm_index (length (h ! new)) ind) := (h ! newvec) ! i]"
  from Cons.prems(4) have set: "list_setitem (h ! new) ind ((h ! newvec) ! i) = Inr ?xs"
    by (intro list_setitem_valid) simp_all
  have "snd (assign_loop (h[new := ?xs]) new newvec inds (Suc i)) = None"
    using Cons.prems by (intro Cons.IH) simp_all
  with set Cons.prems(3) show ?case
    by simp
qed

lemma vec2obj_run:
  "(\<exists>e. vec2obj h orig newvec inds = (h, Inl e)) \<or>
   (\<exists>orig_a newvec_a h2 r. orig = Some orig_a \<and> newvec = Some newvec_a \<and>
      assign_loop (h @ [h ! orig_a]) (length h) newvec_a (inds_used h newvec_a inds) 0 = (h2, r) \<and>
      vec2obj h orig newvec inds
        = (h2, case r of None \<Rightarrow> Inr (length h) | Some e \<Rightarrow> Inl e))"
proof (cases orig)
  case None
  then show ?thesis by (simp add: vec2obj_def)
next
  case o: (Some orig_a)
  show ?thesis
  proof (cases newvec)
    case None
    with o show ?thesis by (simp add: vec2obj_def)
  next
    case nv: (Some newvec_a)
    obtain h2 r where loop:
      "assign_loop (h @ [h ! orig_a]) (length h) newvec_a (inds_used h newvec_a inds) 0 = (h2, r)"
      by (cases "assign_loop (h @ [h ! orig_a]) (length h) newvec_a (inds_used h newvec_a inds) 0")
    show ?thesis
    proof (cases inds)
      case None
      with o nv loop show ?thesis
        by (cases r) (auto simp: vec2obj_def dcp_def inds_used_def Let_def)
    next
      case (Some idxs)
      with o nv loop show ?thesis
        by (cases r) (auto simp: vec2obj_def dcp_def inds_used_def Let_def)
    qed
  qed
qed

lemma vec2obj_frame_aux: "take (length h) (fst (vec2obj h orig newvec inds)) = h"
proof -
  have "take (length h) h2 = h"
    if "assign_loop (h @ [x]) (length h) nv idxs 0 = (h2, r)" for x nv idxs h2 r
    using that assign_loop_frame [of "length h" "length h" "h @ [x]" nv idxs 0] by simp
  with vec2obj_run [of h orig newvec inds] show ?thesis
    by (elim disjE exE conjE) simp_all
qed

lemma vec2obj_fresh:
  assumes "snd (vec2obj h orig newvec inds) = Inr new"
  shows "new = length h \<and> length (fst (vec2obj h orig newvec inds)) = Suc (length h)"
proof -
  have len: "length h2 = Suc (length h)"
    if "assign_loop (h @ [x]) (length h) nv idxs 0 = (h2, r)" for x nv idxs h2 r
    using that assign_loop_length [of "h @ [x]" "length h" nv idxs 0] by simp
  from vec2obj_run [of h orig newvec inds] show ?thesis
  proof (elim disjE exE conjE)
    fix e
    assume "vec2obj h orig newvec inds = (h, Inl e)"
    with assms show ?thesis by simp
  next
    fix orig_a newvec_a h2 r
    assume loop: "assign_loop (h @ [h ! orig_a]) (length h) newvec_a (inds_used h newvec_a inds) 0 = (h2, r)"
      and run: "vec2obj h orig newvec inds
        = (h2, case r of None \<Rightarrow> Inr (length h) | Some e \<Rightarrow> Inl e)"
    from run assms have "new = length h"
      by (cases r) simp_all
    with run len [OF loop] show ?thesis by simp
  qed
qed

lemma vec2obj_result:
  assumes "vec2obj h (Some orig) (Some newvec) inds = (h', Inr new)"
    and "newvec < length h"
  shows "h' = h @ [assign_all (h ! orig) (inds_used h newvec inds) (h ! newvec)]"
proof -
  from vec2obj_run [of h "Some orig" "Some newvec" inds] assms(1) obtain r
    where loop: "assign_loop (h @ [h ! orig]) (length h) newvec (inds_used h newvec inds) 0 = (h', r)"
      and r: "(case r of None \<Rightarrow> Inr (length h) | Some e \<Rightarrow> Inl e) = (Inr new :: error + nat)"
    by auto
  from r have "r = None"
    by (cases r) simp_all
  with assign_loop_result [of "h @ [h ! orig]" "length h" newvec _ 0 h'] loop assms(2)
  show ?thesis
    by (simp add: nth_append)
qed

lemma vec2obj_mismatch:
  "length (h ! newvec) \<noteq> length (h ! orig) \<Longrightarrow>
   vec2obj h (Some orig) (Some newvec) None
     = (h, Inl (LengthsMustMatch (length (h ! orig)) (length (h ! newvec))))"
  by (simp add: vec2obj_def)

lemma vec2obj_succeeds_inds:
  assumes "orig < length h" and "newvec < length h" and "inds \<noteq> []"
    and "length inds \<le> length (h ! newvec)"
    and "\<forall>ind \<in> set inds. - int (length (h ! orig)) \<le> ind \<and> ind < int (length (h ! orig))"
  shows "snd (vec2obj h (Some orig) (Some newvec) (Some inds)) = Inr (length h)"
proof -
  from assms(3,5) have mx: "\<not> int (length (h ! orig)) \<le> Max (set inds)"
    by (simp add: not_le)
  have "snd (assign_loop (h @ [h ! orig]) (length h) newvec inds 0) = None"
    using assms by (intro assign_loop_succeeds) (simp_all add: nth_append)
  then obtain h2 where "assign_loop (h @ [h ! orig]) (length h) newvec inds 0 = (h2, None)"
    by (cases "assign_loop (h @ [h ! orig]) (length h) newvec inds 0") auto
  then show ?thesis
    using assms(3) mx by (simp add: vec2obj_def dcp_def Let_def)
qed

lemma vec2obj_succeeds_None:
  assumes "orig < length h" and "newvec < length h"
    and "length (h ! newvec) = length (h ! orig)"
  shows "snd (vec2obj h (Some orig) (Some newvec) None) = Inr (length h)"
proof -
  have "snd (assign_loop (h @ [h ! orig]) (length h) newvec (map int [0..<length (h ! newvec)]) 0) = None"
    using assms by (intro assign_loop_succeeds) (auto simp: nth_append)
  then obtain h2 where "assign_loop (h @ [h ! orig]) (length h) newvec
      (map int [0..<length (h ! newvec)]) 0 = (h2, None)"
    by (cases "assign_loop (h @ [h ! orig]) (length h) newvec (map int [0..<length (h ! newvec)]) 0")
      auto
  then show ?thesis
    using assms(3) by (simp add: vec2obj_def dcp_def Let_def)
qed

lemma assign_all_other:
  "p \<notin> (\<lambda>ind. nat (norm_index (length xs) ind)) ` set inds \<Longrightarrow> assign_all xs inds vs ! p = xs ! p"
  by (induction xs inds vs rule: assign_all.induct) auto

lemma assign_all_nth:
  "distinct (map (\<lambda>ind. nat (norm_index (length xs) ind)) inds) \<Longrightarrow> length inds \<le> length vs \<Longrightarrow>
   \<forall>ind \<in> set inds. nat (norm_index (length xs) ind) < length xs \<Longrightarrow> i < length inds \<Longrightarrow>
   assign_all xs inds vs ! nat (norm_index (length xs) (inds ! i)) = vs ! i"
proof (induction xs inds vs arbitrary: i rule: assign_all.induct)
  case (1 xs ind inds v vs)
  let ?xs = "xs[nat (norm_index (length xs) ind) := v]"
  show ?case
  proof (cases i)
    case 0
    have "assign_all ?xs inds vs ! nat (norm_index (length xs) ind) = ?xs ! nat (norm_index (length xs) ind)"
      using "1.prems"(1) by (intro assign_all_other) auto
    with 0 "1.prems"(3) show ?thesis by simp
  next
    case (Suc i')
    have "assign_all ?xs inds vs ! nat (norm_index (length ?xs) (inds ! i')) = vs ! i'"
      using "1.prems" Suc by (intro "1.IH") auto
    with Suc show ?thesis by simp
  qed
qed simp_all

lemma assign_all_range_aux:
  "length ys = n \<Longrightarrow> length vs = n \<Longrightarrow> i \<le> n \<Longrightarrow>
   assign_all ys (map int [i..<n]) (drop i vs) = take i ys @ drop i vs"
proof (induction "n - i" arbitrary: i ys)
  case 0
  then show ?case by simp
next
  case (Suc m)
  then have i: "i < n" by simp
  have up: "[i..<n] = i # [Suc i..<n]"
    using i by (simp add: upt_conv_Cons)
  have dr: "drop i vs = vs ! i # drop (Suc i) vs"
    using i Suc.prems(2) by (simp add: Cons_nth_drop_Suc)
  have "assign_all (ys[i := vs ! i]) (map int [Suc i..<n]) (drop (Suc i) vs)
          = take (Suc i) (ys[i := vs ! i]) @ drop (Suc i) vs"
    using Suc.hyps(2) Suc.prems i by (intro Suc.hyps(1)) simp_all
  also have "take (Suc i) (ys[i := vs ! i]) = take i ys @ [vs ! i]"
    using i Suc.prems(1) by (simp add: take_Suc_conv_app_nth)
  finally show ?case
    using up dr Suc.prems(1) by (simp add: norm_index_def)
qed

lemma assign_all_range:
  "length xs = length vs \<Longrightarrow> assign_all xs (map int [0..<length vs]) vs = vs"
  using assign_all_range_aux [of xs "length vs" vs 0] by simp

section \<open>The claims\<close>

subsection \<open>getnested\<close>

text \<open>
  C1 (as amended). Along any path: when every key is found, \<open>getnested\<close> returns the value
  at the end of the path, with \<open>safe\<close> or without. When the descent stands, with keys
  left, at an empty dictionary, \<open>getnested\<close> raises \<open>KeyError\<close> without \<open>safe\<close> and
  returns \<open>None\<close> with it; at \<open>None\<close> (or another false value that is no dictionary) it
  raises \<open>TypeError\<close> without \<open>safe\<close> and returns \<open>None\<close> with it. With \<open>safe\<close>,
  a key missing from a non-empty dictionary gives \<open>None\<close>, and a true value that is no
  dictionary raises \<open>AttributeError\<close>. Nothing is said here of a call without \<open>safe\<close>
  that meets a key missing from a non-empty dictionary or a true value that is no
  dictionary.
\<close>

theorem getnested_outcomes:
  "(descend tree path = Reached v \<longrightarrow> getnested tree path safe = Inr v) \<and>
   (descend tree path = EmptyMapping \<longrightarrow>
      getnested tree path False = Inl KeyError \<and> getnested tree path True = Inr PNone) \<and>
   (descend tree path = NullLevel \<longrightarrow>
      getnested tree path False = Inl TypeError \<and> getnested tree path True = Inr PNone) \<and>
   (descend tree path = NonMapping \<longrightarrow> getnested tree path True = Inl AttributeError) \<and>
   (descend tree path = MissingKey \<longrightarrow> getnested tree path True = Inr PNone)"
  using getnested_reached [of tree path v safe] getnested_empty_mapping [of tree path]
    getnested_null_level [of tree path] getnested_non_mapping [of tree path True]
    getnested_missing_safe [of tree path]
  by blast

theorem getnested_outcomes_witness:
  "descend (PDict [(''a'', PDict [(''b'', PInt 3)])]) [''a'', ''b''] = Reached (PInt 3) \<and>
   getnested (PDict [(''a'', PDict [(''b'', PInt 3)])]) [''a'', ''b''] False = Inr (PInt 3) \<and>
   descend (PDict [(''a'', PDict [])]) [''a'', ''b''] = EmptyMapping \<and>
   getnested (PDict [(''a'', PDict [])]) [''a'', ''b''] False = Inl KeyError \<and>
   getnested (PDict [(''a'', PDict [])]) [''a'', ''b''] True = Inr PNone \<and>
   descend (PDict [(''a'', PNone)]) [''a'', ''b''] = NullLevel \<and>
   getnested (PDict [(''a'', PNone)]) [''a'', ''b''] False = Inl TypeError \<and>
   getnested (PDict [(''a'', PNone)]) [''a'', ''b''] True = Inr PNone \<and>
   descend (PDict [(''a'', PInt 3)]) [''a'', ''b''] = NonMapping \<and>
   getnested (PDict [(''a'', PInt 3)]) [''a'', ''b''] True = Inl AttributeError \<and>
   descend (PDict [(''a'', PInt 3)]) [''b'', ''c''] = MissingKey \<and>
   getnested (PDict [(''a'', PInt 3)]) [''b'', ''c''] True = Inr PNone"
proof -
  have h1: "descend (PDict [(''a'', PDict [(''b'', PInt 3)])]) [''a'', ''b''] = Reached (PInt 3)"
    by simp
  have h2: "descend (PDict [(''a'', PDict [])]) [''a'', ''b''] = EmptyMapping"
    by simp
  have h3: "descend (PDict [(''a'', PNone)]) [''a'', ''b''] = NullLevel"
    by simp
  have h4: "descend (PDict [(''a'', PInt 3)]) [''a'', ''b''] = NonMapping"
    by simp
  have h5: "descend (PDict [(''a'', PInt 3)]) [''b'', ''c''] = MissingKey"
    by simp
  note c1 = getnested_outcomes [where tree = "PDict [(''a'', PDict [(''b'', PInt 3)])]"
      and path = "[''a'', ''b'']" and v = "PInt 3" and safe = False]
  note c2 = getnested_outcomes [where tree = "PDict [(''a'', PDict [])]"
      and path = "[''a'', ''b'']"]
  note c3 = getnested_outcomes [where tree = "PDict [(''a'', PNone)]"
      and path = "[''a'', ''b'']"]
  note c4 = getnested_outcomes [where tree = "PDict [(''a'', PInt 3)]"
      and path = "[''a'', ''b'']"]
  note c5 = getnested_outcomes [where tree = "PDict [(''a'', PInt 3)]"
      and path = "[''b'', ''c'']"]
  note g1 = c1 [THEN conjunct1, THEN mp, OF h1]
  note g2 = c2 [THEN conjunct2, THEN conjunct1, THEN mp, OF h2]
  note g3 = c3 [THEN conjunct2, THEN conjunct2, THEN conjunct1, THEN mp, OF h3]
  note g4 = c4 [THEN conjunct2, THEN conjunct2, THEN conjunct2, THEN conjunct1, THEN mp, OF h4]
  note g5 = c5 [THEN conjunct2, THEN conjunct2, THEN conjunct2, THEN conjunct2, THEN mp, OF h5]
  show ?thesis
    by (intro conjI h1 h2 h3 h4 h5 g1 g2 [THEN conjunct1] g2 [THEN conjunct2]
        g3 [THEN conjunct1] g3 [THEN conjunct2] g4 g5)
qed

text \<open>
  C1 as stated fails with \<open>safe\<close>: a path that runs into the integer \<open>3\<close> raises
  \<open>AttributeError\<close> instead of returning \<open>None\<close>, because \<open>getnested\<close> never tests
  what kind of value it stands at.
\<close>

theorem getnested_counterexample:
  "descend (PDict [(''a'', PInt 3)]) [''a'', ''b''] = NonMapping \<and>
   getnested (PDict [(''a'', PInt 3)]) [''a'', ''b''] True = Inl AttributeError"
  by (simp add: getnested_def getnested_step_def)

subsection \<open>makenested\<close>

text \<open>
  C2 (as amended). For every tree, non-empty path and value \<open>v\<close> such that the root and every
  level that already exists along \<open>path[:-1]\<close> is a dictionary: \<open>makenested\<close> returns
  normally, every key of the path is then found in turn with \<open>v\<close> at the end, and
  \<open>getnested\<close> on the new tree returns \<open>v\<close> along the path, in both modes. When the
  first key of the path is not in the root dictionary, so that no level of the path existed,
  the root gets one new entry: the first key with the chain of newly created dictionaries
  below it and \<open>v\<close> at the end.
\<close>

theorem makenested_then_getnested:
  assumes "path \<noteq> []"
  shows "(levels_ok tree (butlast path) \<longrightarrow>
            snd (makenested tree path v) = None \<and>
            descend (fst (makenested tree path v)) path = Reached v \<and>
            getnested (fst (makenested tree path v)) path safe = Inr v) \<and>
         (map_of kvs (hd path) = None \<longrightarrow>
            makenested (PDict kvs) path v = (PDict (kvs @ [(hd path, nest (tl path) v)]), None))"
proof (intro conjI impI)
  assume ok: "levels_ok tree (butlast path)"
  from makenested_loop_ok [OF ok, of "last path" v] obtain tree'
    where loop: "makenested_loop tree (butlast path) (last path) v = (tree', None)"
      and reached: "descend tree' (butlast path @ [last path]) = Reached v"
    by blast
  from assms loop have made: "makenested tree path v = (tree', None)"
    by (simp add: makenested_def)
  from assms reached have r: "descend tree' path = Reached v"
    by simp
  from made show "snd (makenested tree path v) = None"
    by simp
  from made r show "descend (fst (makenested tree path v)) path = Reached v"
    by simp
  from made r show "getnested (fst (makenested tree path v)) path safe = Inr v"
    by (simp add: getnested_reached)
next
  assume "map_of kvs (hd path) = None"
  with assms show "makenested (PDict kvs) path v
      = (PDict (kvs @ [(hd path, nest (tl path) v)]), None)"
    by (rule makenested_absent)
qed

theorem makenested_then_getnested_witness:
  "[''a'', ''b'', ''c''] \<noteq> [] \<and> levels_ok (PDict [(''x'', PInt 1)]) (butlast [''a'', ''b'', ''c'']) \<and>
   snd (makenested (PDict [(''x'', PInt 1)]) [''a'', ''b'', ''c''] (PInt 5)) = None \<and>
   getnested (fst (makenested (PDict [(''x'', PInt 1)]) [''a'', ''b'', ''c''] (PInt 5)))
     [''a'', ''b'', ''c''] False = Inr (PInt 5) \<and>
   map_of [(''x'', PInt 1)] (hd [''a'', ''b'', ''c'']) = None \<and>
   makenested (PDict [(''x'', PInt 1)]) [''a'', ''b'', ''c''] (PInt 5)
     = (PDict ([(''x'', PInt 1)] @ [(hd [''a'', ''b'', ''c''], nest (tl [''a'', ''b'', ''c'']) (PInt 5))]),
        None) \<and>
   nest (tl [''a'', ''b'', ''c'']) (PInt 5) = PDict [(''b'', PDict [(''c'', PInt 5)])]"
proof -
  have h1: "[''a'', ''b'', ''c''] \<noteq> []"
    by simp
  have h2: "levels_ok (PDict [(''x'', PInt 1)]) (butlast [''a'', ''b'', ''c''])"
    by simp
  have h3: "map_of [(''x'', PInt 1)] (hd [''a'', ''b'', ''c'']) = None"
    by simp
  have n: "nest (tl [''a'', ''b'', ''c'']) (PInt 5) = PDict [(''b'', PDict [(''c'', PInt 5)])]"
    by simp
  note t = makenested_then_getnested [OF h1, where v = "PInt 5" and safe = False]
  note g1 = t [where tree = "PDict [(''x'', PInt 1)]", THEN conjunct1, THEN mp, OF h2]
  note g2 = t [where kvs = "[(''x'', PInt 1)]", THEN conjunct2, THEN mp, OF h3]
  show ?thesis
    by (intro conjI h1 h2 h3 n g1 [THEN conjunct1] g1 [THEN conjunct2, THEN conjunct2] g2)
qed

text \<open>
  C2 as stated fails when a level that exists along the path is no dictionary:
  \<open>makenested\<close> raises \<open>TypeError\<close>, the tree stays as it was, and \<open>getnested\<close> along the
  path raises too.
\<close>

theorem makenested_counterexample:
  "makenested (PDict [(''a'', PInt 3)]) [''a'', ''b''] (PInt 5)
     = (PDict [(''a'', PInt 3)], Some TypeError) \<and>
   getnested (PDict [(''a'', PInt 3)]) [''a'', ''b''] False = Inl AttributeError"
  by (simp add: makenested_def getnested_def getnested_step_def)

subsection \<open>setnested\<close>

text \<open>
  C3. A key of \<open>path[:-1]\<close> that is missing should make \<open>setnested\<close> raise \<open>KeyError\<close>
  and create no level. On the code, a key missing from a non-empty dictionary makes
  \<open>getnested\<close> return \<open>None\<close> without an exception, and the assignment into \<open>None\<close>
  then raises \<open>TypeError\<close>; the tree stays as it was.
\<close>

theorem setnested_missing_key:
  "descend (PDict [(''x'', PInt 1)]) (butlast [''a'', ''b'']) = MissingKey \<and>
   getnested (PDict [(''x'', PInt 1)]) (butlast [''a'', ''b'']) False = Inr PNone \<and>
   setnested (PDict [(''x'', PInt 1)]) [''a'', ''b''] (PInt 5)
     = (PDict [(''x'', PInt 1)], Some TypeError)"
  by (simp add: setnested_def getnested_def getnested_step_def)

subsection \<open>iternested\<close>

text \<open>
  C4. On a dictionary, \<open>iternested\<close> returns the complete paths to the values that are no
  dictionaries, depth first with every level in its own key order (the list
  \<open>leaf_paths\<close>). When the keys of every dictionary are distinct: a path is in the
  result exactly when it leads from the root to a value that is no dictionary, no path is
  produced twice, and the result is ordered by the positions of the keys, level by level.
  The result is a finite list and a function of the tree alone.
\<close>

theorem iternested_paths:
  "iternested (PDict kvs) [] = Inr (leaf_paths (PDict kvs)) \<and>
   (wf_tree (PDict kvs) \<longrightarrow>
      distinct (leaf_paths (PDict kvs)) \<and>
      (\<forall>p. p \<in> set (leaf_paths (PDict kvs)) \<longleftrightarrow> is_leaf_path (PDict kvs) p) \<and>
      sorted_wrt ord_class.lexordp (map (key_positions (PDict kvs)) (leaf_paths (PDict kvs))))"
proof (intro conjI impI allI)
  have "map ((@) []) xs = xs" for xs :: "string list list"
    by (induction xs) simp_all
  then show "iternested (PDict kvs) [] = Inr (leaf_paths (PDict kvs))"
    by (simp add: iternested_def iter_items_leaf_paths)
next
  assume "wf_tree (PDict kvs)"
  then show "distinct (leaf_paths (PDict kvs))"
    by (rule distinct_leaf_paths_aux(1))
next
  fix p
  assume "wf_tree (PDict kvs)"
  then show "p \<in> set (leaf_paths (PDict kvs)) \<longleftrightarrow> is_leaf_path (PDict kvs) p"
    by (rule set_leaf_paths_aux(1))
next
  assume "wf_tree (PDict kvs)"
  then show "sorted_wrt ord_class.lexordp (map (key_positions (PDict kvs)) (leaf_paths (PDict kvs)))"
    by (rule sorted_leaf_paths_aux(1))
qed

theorem iternested_paths_witness:
  "wf_tree (PDict [(''a'', PDict [(''y'', PNone), (''x'', PInt 2)]), (''b'', PInt 1)]) \<and>
   iternested (PDict [(''a'', PDict [(''y'', PNone), (''x'', PInt 2)]), (''b'', PInt 1)]) []
     = Inr [[''a'', ''y''], [''a'', ''x''], [''b'']] \<and>
   is_leaf_path (PDict [(''a'', PDict [(''y'', PNone), (''x'', PInt 2)]), (''b'', PInt 1)])
     [''a'', ''x''] \<and>
   map (key_positions (PDict [(''a'', PDict [(''y'', PNone), (''x'', PInt 2)]), (''b'', PInt 1)]))
     [[''a'', ''y''], [''a'', ''x''], [''b'']] = [[0, 0], [0, 1], [1]] \<and>
   sorted_wrt ord_class.lexordp [[0, 0], [0, 1], [1 :: nat]]"
proof -
  let ?t = "PDict [(''a'', PDict [(''y'', PNone), (''x'', PInt 2)]), (''b'', PInt 1)]"
  have h: "wf_tree ?t"
    by simp
  have l: "leaf_paths ?t = [[''a'', ''y''], [''a'', ''x''], [''b'']]"
    by simp
  have k: "map (key_positions ?t) [[''a'', ''y''], [''a'', ''x''], [''b'']] = [[0, 0], [0, 1], [1]]"
    by simp
  note c = iternested_paths [of "[(''a'', PDict [(''y'', PNone), (''x'', PInt 2)]), (''b'', PInt 1)]"]
  note c1 = c [THEN conjunct1]
  note c2 = c [THEN conjunct2, THEN mp, OF h]
  from c2 have "is_leaf_path ?t [''a'', ''x''] \<longleftrightarrow> [''a'', ''x''] \<in> set (leaf_paths ?t)"
    by blast
  then have g1: "is_leaf_path ?t [''a'', ''x'']"
    by (simp add: l)
  from c2 have "sorted_wrt ord_class.lexordp (map (key_positions ?t) (leaf_paths ?t))"
    by blast
  then have g2: "sorted_wrt ord_class.lexordp [[0, 0], [0, 1], [1 :: nat]]"
    by (simp only: l k)
  from c1 have g3: "iternested ?t [] = Inr [[''a'', ''y''], [''a'', ''x''], [''b'']]"
    by (simp only: l)
  show ?thesis
    by (intro conjI h g3 g1 k g2)
qed

text \<open>
  C9. An entry whose value is an empty dictionary adds nothing to the output of its level;
  a root all of whose values are empty dictionaries gives the empty list; and (keys being
  distinct) no path of the output ends at or passes through an empty dictionary.
\<close>

theorem iternested_empty_mapping:
  "iter_items (kvs1 @ (k, PDict []) # kvs2) previous
     = iter_items kvs1 previous @ iter_items kvs2 previous \<and>
   (set (map snd kvs) \<subseteq> {PDict []} \<longrightarrow> iternested (PDict kvs) [] = Inr []) \<and>
   (wf_tree (PDict kvs) \<and> iternested (PDict kvs) [] = Inr ps \<and> p \<in> set ps \<and> prefix q p \<longrightarrow>
      descend (PDict kvs) q \<noteq> Reached (PDict []))"
proof (intro conjI impI)
  have "iter_items ((k, PDict []) # kvs2) previous = iter_items kvs2 previous"
    by simp
  then show "iter_items (kvs1 @ (k, PDict []) # kvs2) previous
      = iter_items kvs1 previous @ iter_items kvs2 previous"
    by (simp only: iter_items_append)
next
  assume "set (map snd kvs) \<subseteq> {PDict []}"
  then show "iternested (PDict kvs) [] = Inr []"
    by (simp add: iternested_def iter_items_leaf_paths leaf_paths_items_all_empty)
next
  assume a: "wf_tree (PDict kvs) \<and> iternested (PDict kvs) [] = Inr ps \<and> p \<in> set ps \<and> prefix q p"
  then have "p \<in> set (leaf_paths (PDict kvs))"
    by (auto simp: iternested_def iter_items_leaf_paths)
  with a have "is_leaf_path (PDict kvs) p"
    using set_leaf_paths_aux(1) [of "PDict kvs" p] by blast
  with a show "descend (PDict kvs) q \<noteq> Reached (PDict [])"
    using leaf_path_not_through_empty by blast
qed

theorem iternested_empty_mapping_witness:
  "set (map snd [(''a'', PDict []), (''b'', PDict [])]) \<subseteq> {PDict []} \<and>
   iternested (PDict [(''a'', PDict []), (''b'', PDict [])]) [] = Inr [] \<and>
   wf_tree (PDict [(''e'', PDict []), (''b'', PDict [(''c'', PInt 1)])]) \<and>
   iternested (PDict [(''e'', PDict []), (''b'', PDict [(''c'', PInt 1)])]) [] = Inr [[''b'', ''c'']] \<and>
   [''b'', ''c''] \<in> set [[''b'', ''c'']] \<and> prefix [''b''] [''b'', ''c''] \<and>
   descend (PDict [(''e'', PDict []), (''b'', PDict [(''c'', PInt 1)])]) [''b''] \<noteq> Reached (PDict [])"
proof -
  have h1: "set (map snd [(''a'', PDict []), (''b'', PDict [])]) \<subseteq> {PDict []}"
    by simp
  have h2: "wf_tree (PDict [(''e'', PDict []), (''b'', PDict [(''c'', PInt 1)])])"
    by simp
  have h3: "iternested (PDict [(''e'', PDict []), (''b'', PDict [(''c'', PInt 1)])]) []
              = Inr [[''b'', ''c'']]"
    by (simp add: iternested_def)
  have h4: "[''b'', ''c''] \<in> set [[''b'', ''c'']]"
    by simp
  have h5: "prefix [''b''] [''b'', ''c'']"
    by simp
  note c1 = iternested_empty_mapping [where kvs = "[(''a'', PDict []), (''b'', PDict [])]"]
  note c2 = iternested_empty_mapping [where kvs = "[(''e'', PDict []), (''b'', PDict [(''c'', PInt 1)])]"
      and ps = "[[''b'', ''c'']]" and p = "[''b'', ''c'']" and q = "[''b'']"]
  note g1 = c1 [THEN conjunct2, THEN conjunct1, THEN mp, OF h1]
  note g2 = c2 [THEN conjunct2, THEN conjunct2, THEN mp, OF conjI [OF h2 conjI [OF h3 conjI [OF h4 h5]]]]
  show ?thesis
    by (intro conjI h1 h2 h3 h4 h5 g1 g2)
qed

subsection \<open>inclusiverange\<close>

text \<open>
  C5 (as amended). For integers \<open>i \<le> j\<close> that a double holds exactly, with a distance it
  holds exactly (\<open>i\<close>, \<open>j\<close> and \<open>j - i\<close> at most \<open>2 ^ 53\<close> in absolute value), the
  inclusive range from \<open>i\<close> to \<open>j\<close> with step 1 (given or by default) is the list of
  the integers \<open>i, i + 1, ..., j\<close>: it has \<open>j - i + 1\<close> points, starts with \<open>i\<close> and
  ends with \<open>j\<close>.
\<close>

theorem inclusiverange_inclusive:
  assumes "\<bar>i\<bar> \<le> 2 ^ 53" and "\<bar>j\<bar> \<le> 2 ^ 53" and "i \<le> j" and "j - i \<le> 2 ^ 53"
  shows "inclusiverange [Some (PyInt i), Some (PyInt j), Some (PyInt 1)] Map.empty
           = Inr (map (\<lambda>n. Fin (real_of_int n)) [i..j]) \<and>
         inclusiverange [Some (PyInt i), Some (PyInt j)] Map.empty
           = Inr (map (\<lambda>n. Fin (real_of_int n)) [i..j]) \<and>
         length (map (\<lambda>n. Fin (real_of_int n)) [i..j]) = nat (j - i + 1) \<and>
         hd (map (\<lambda>n. Fin (real_of_int n)) [i..j]) = Fin (real_of_int i) \<and>
         last (map (\<lambda>n. Fin (real_of_int n)) [i..j]) = Fin (real_of_int j)"
  using inclusiverange_ints [OF assms] upto_facts [OF assms(3)]
  by (simp add: hd_map last_map)

theorem inclusiverange_inclusive_witness:
  "\<bar>2 :: int\<bar> \<le> 2 ^ 53 \<and> \<bar>5 :: int\<bar> \<le> 2 ^ 53 \<and> (2 :: int) \<le> 5 \<and> (5 :: int) - 2 \<le> 2 ^ 53 \<and>
   inclusiverange [Some (PyInt 2), Some (PyInt 5), Some (PyInt 1)] Map.empty
     = Inr [Fin 2, Fin 3, Fin 4, Fin 5] \<and>
   inclusiverange [Some (PyInt 2), Some (PyInt 5)] Map.empty = Inr [Fin 2, Fin 3, Fin 4, Fin 5] \<and>
   length [Fin 2, Fin 3, Fin 4, Fin 5] = nat (5 - 2 + 1)"
proof -
  have h1: "\<bar>2 :: int\<bar> \<le> 2 ^ 53" and h2: "\<bar>5 :: int\<bar> \<le> 2 ^ 53" and h3: "(2 :: int) \<le> 5"
    and h4: "(5 :: int) - 2 \<le> 2 ^ 53"
    by simp_all
  have u: "map (\<lambda>n. Fin (real_of_int n)) [2..5] = [Fin 2, Fin 3, Fin 4, Fin 5]"
    by (simp add: upto_rec1)
  show ?thesis
    using h1 h2 h3 h4 inclusiverange_inclusive [OF h1 h2 h3 h4] by (simp add: u)
qed

text \<open>
  C5 as stated fails for integers no double holds: from \<open>2 ^ 53 + 1\<close> to \<open>2 ^ 53 + 3\<close>
  the range has three points, but they are \<open>2 ^ 53\<close>, \<open>2 ^ 53 + 2\<close> and \<open>2 ^ 53 + 4\<close>,
  and neither bound is among them.
\<close>

theorem inclusiverange_counterexample:
  "inclusiverange [Some (PyInt 9007199254740993), Some (PyInt 9007199254740995)] Map.empty
     = Inr [Fin 9007199254740992, Fin 9007199254740994, Fin 9007199254740996] \<and>
   Fin (real_of_int 9007199254740993)
     \<notin> set [Fin 9007199254740992, Fin 9007199254740994, Fin 9007199254740996] \<and>
   Fin (real_of_int 9007199254740995)
     \<notin> set [Fin 9007199254740992, Fin 9007199254740994, Fin 9007199254740996]"
  using inclusiverange_beyond by simp

text \<open>
  C10. With exactly one positional argument \<open>inclusiverange\<close> raises \<open>TypeError\<close>,
  whatever the keyword arguments; with zero, two or three positional arguments the
  arguments are accepted and no \<open>TypeError\<close> is raised.
\<close>

theorem inclusiverange_one_positional:
  "(length args = 1 \<longrightarrow> inclusiverange args kwargs = Inl TypeError) \<and>
   (length args \<in> {0, 2, 3} \<longrightarrow>
      (\<exists>t. handle_args args = Inr t) \<and> inclusiverange args kwargs \<noteq> Inl TypeError)"
  using inclusiverange_one_arg [of args kwargs] inclusiverange_accepted [of args kwargs]
  by blast

theorem inclusiverange_one_positional_witness:
  "length [Some (PyInt 6)] = 1 \<and>
   inclusiverange [Some (PyInt 6)] (Map.empty(''step'' \<mapsto> Some (PyInt 2))) = Inl TypeError \<and>
   length [Some (PyInt 6), Some (PyInt 8)] \<in> {0, 2, 3} \<and>
   inclusiverange [Some (PyInt 6), Some (PyInt 8)] (Map.empty(''step'' \<mapsto> Some (PyInt 2)))
     \<noteq> Inl TypeError"
proof -
  have h1: "length [Some (PyInt 6)] = 1"
    by simp
  have h2: "length [Some (PyInt 6), Some (PyInt 8)] \<in> {0, 2, 3}"
    by simp
  note c1 = inclusiverange_one_positional [where args = "[Some (PyInt 6)]"
      and kwargs = "Map.empty(''step'' \<mapsto> Some (PyInt 2))", THEN conjunct1, THEN mp, OF h1]
  note c2 = inclusiverange_one_positional [where args = "[Some (PyInt 6), Some (PyInt 8)]"
      and kwargs = "Map.empty(''step'' \<mapsto> Some (PyInt 2))", THEN conjunct2, THEN mp, OF h2]
  show ?thesis
    by (intro conjI h1 h2 c1 c2 [THEN conjunct2])
qed

subsection \<open>flattendict\<close>



subsection \<open>vec2obj\<close>

text \<open>
  C7 (as amended). For list objects \<open>orig\<close> and \<open>newvec\<close>: without an index list,
  \<open>vec2obj\<close> raises the length-mismatch exception when the lengths differ, and returns
  a new object with the contents of the vector when they are equal. With a non-empty index
  list no longer than the vector, each index a position of \<open>orig\<close> (from \<open>-len\<close> to
  \<open>len - 1\<close>), it returns a new object on which the assignments were made one after the
  other, the \<open>i\<close>-th element of the vector at the \<open>i\<close>-th index; when the indices stand
  for distinct positions, the new object holds the \<open>i\<close>-th element of the vector at the
  \<open>i\<close>-th index, for every \<open>i\<close>.
\<close>

theorem vec2obj_replacement:
  assumes "orig < length h" and "newvec < length h"
  shows "(length (h ! newvec) \<noteq> length (h ! orig) \<longrightarrow>
            vec2obj h (Some orig) (Some newvec) None
              = (h, Inl (LengthsMustMatch (length (h ! orig)) (length (h ! newvec))))) \<and>
         (length (h ! newvec) = length (h ! orig) \<longrightarrow>
            vec2obj h (Some orig) (Some newvec) None = (h @ [h ! newvec], Inr (length h))) \<and>
         (inds \<noteq> [] \<and> length inds \<le> length (h ! newvec) \<and>
          (\<forall>ind \<in> set inds. - int (length (h ! orig)) \<le> ind \<and> ind < int (length (h ! orig))) \<longrightarrow>
            vec2obj h (Some orig) (Some newvec) (Some inds)
              = (h @ [assign_all (h ! orig) inds (h ! newvec)], Inr (length h)) \<and>
            (distinct (map (\<lambda>ind. nat (norm_index (length (h ! orig)) ind)) inds) \<longrightarrow>
               (\<forall>i < length inds.
                  assign_all (h ! orig) inds (h ! newvec) ! nat (norm_index (length (h ! orig)) (inds ! i))
                    = (h ! newvec) ! i)))"
proof (intro conjI impI allI)
  assume "length (h ! newvec) \<noteq> length (h ! orig)"
  then show "vec2obj h (Some orig) (Some newvec) None
      = (h, Inl (LengthsMustMatch (length (h ! orig)) (length (h ! newvec))))"
    by (rule vec2obj_mismatch)
next
  assume eq: "length (h ! newvec) = length (h ! orig)"
  obtain h' r where run: "vec2obj h (Some orig) (Some newvec) None = (h', r)"
    by (cases "vec2obj h (Some orig) (Some newvec) None")
  with vec2obj_succeeds_None [OF assms eq] have r: "r = Inr (length h)"
    by simp
  have "assign_all (h ! orig) (map int [0..<length (h ! newvec)]) (h ! newvec) = h ! newvec"
    using eq by (intro assign_all_range) simp
  with vec2obj_result [of h orig newvec None h' "length h"] run r assms(2)
  have "h' = h @ [h ! newvec]"
    by (simp add: inds_used_def)
  with run r show "vec2obj h (Some orig) (Some newvec) None = (h @ [h ! newvec], Inr (length h))"
    by simp
next
  assume ok: "inds \<noteq> [] \<and> length inds \<le> length (h ! newvec) \<and>
    (\<forall>ind \<in> set inds. - int (length (h ! orig)) \<le> ind \<and> ind < int (length (h ! orig)))"
  obtain h' r where run: "vec2obj h (Some orig) (Some newvec) (Some inds) = (h', r)"
    by (cases "vec2obj h (Some orig) (Some newvec) (Some inds)")
  with vec2obj_succeeds_inds [OF assms, of inds] ok have r: "r = Inr (length h)"
    by simp
  from vec2obj_result [of h orig newvec "Some inds" h' "length h"] run r assms(2)
  have "h' = h @ [assign_all (h ! orig) inds (h ! newvec)]"
    by (simp add: inds_used_def)
  with run r show "vec2obj h (Some orig) (Some newvec) (Some inds)
      = (h @ [assign_all (h ! orig) inds (h ! newvec)], Inr (length h))"
    by simp
next
  fix i
  assume ok: "inds \<noteq> [] \<and> length inds \<le> length (h ! newvec) \<and>
    (\<forall>ind \<in> set inds. - int (length (h ! orig)) \<le> ind \<and> ind < int (length (h ! orig)))"
    and d: "distinct (map (\<lambda>ind. nat (norm_index (length (h ! orig)) ind)) inds)"
    and i: "i < length inds"
  from ok have "\<forall>ind \<in> set inds. nat (norm_index (length (h ! orig)) ind) < length (h ! orig)"
    by (auto simp: norm_index_def)
  with d ok i show "assign_all (h ! orig) inds (h ! newvec)
      ! nat (norm_index (length (h ! orig)) (inds ! i)) = (h ! newvec) ! i"
    by (intro assign_all_nth) simp_all
qed

theorem vec2obj_replacement_witness:
  "(0::nat) < length [[PInt 1, PInt 2, PInt 3], [PInt 9, PInt 8], [PInt 7, PInt 6, PInt 5]] \<and>
   vec2obj [[PInt 1, PInt 2, PInt 3], [PInt 9, PInt 8], [PInt 7, PInt 6, PInt 5]] (Some 0) (Some 1) None
     = ([[PInt 1, PInt 2, PInt 3], [PInt 9, PInt 8], [PInt 7, PInt 6, PInt 5]],
        Inl (LengthsMustMatch 3 2)) \<and>
   vec2obj [[PInt 1, PInt 2, PInt 3], [PInt 9, PInt 8], [PInt 7, PInt 6, PInt 5]] (Some 0) (Some 2) None
     = ([[PInt 1, PInt 2, PInt 3], [PInt 9, PInt 8], [PInt 7, PInt 6, PInt 5],
         [PInt 7, PInt 6, PInt 5]], Inr 3) \<and>
   list_all (\<lambda>ind. - 3 \<le> ind \<and> ind < 3) [2, - 3 :: int] \<and>
   vec2obj [[PInt 1, PInt 2, PInt 3], [PInt 9, PInt 8], [PInt 7, PInt 6, PInt 5]] (Some 0) (Some 1)
       (Some [2, - 3])
     = ([[PInt 1, PInt 2, PInt 3], [PInt 9, PInt 8], [PInt 7, PInt 6, PInt 5],
         [PInt 8, PInt 2, PInt 9]], Inr 3) \<and>
   [PInt 8, PInt 2, PInt 9] ! nat (norm_index 3 (- 3)) = PInt 8"
proof -
  let ?h = "[[PInt 1, PInt 2, PInt 3], [PInt 9, PInt 8], [PInt 7, PInt 6, PInt 5]]"
  have o: "(0::nat) < length ?h"
    by simp
  have n1: "(1::nat) < length ?h"
    by simp
  have n2: "(2::nat) < length ?h"
    by simp
  have h1: "length (?h ! 1) \<noteq> length (?h ! 0)"
    by simp
  have h2: "length (?h ! 2) = length (?h ! 0)"
    by simp
  have h3: "[2, - 3] \<noteq> [] \<and> length [2, - 3 :: int] \<le> length (?h ! 1) \<and>
      (\<forall>ind \<in> set [2, - 3]. - int (length (?h ! 0)) \<le> ind \<and> ind < int (length (?h ! 0)))"
    by simp
  have h4: "distinct (map (\<lambda>ind. nat (norm_index (length (?h ! 0)) ind)) [2, - 3])"
    by (simp add: norm_index_def)
  have h5: "list_all (\<lambda>ind. - 3 \<le> ind \<and> ind < 3) [2, - 3 :: int]"
    by simp
  note c1 = vec2obj_replacement [OF o n1, THEN conjunct1, THEN mp, OF h1]
  note c2 = vec2obj_replacement [OF o n2, THEN conjunct2, THEN conjunct1, THEN mp, OF h2]
  note c3 = vec2obj_replacement [OF o n1, where inds = "[2, - 3]",
      THEN conjunct2, THEN conjunct2, THEN mp, OF h3]
  note c4 = c3 [THEN conjunct2, THEN mp, OF h4, THEN spec, of 1]
  have a: "assign_all (?h ! 0) [2, - 3] (?h ! 1) = [PInt 8, PInt 2, PInt 9]"
    by (simp add: norm_index_def)
  from c1 have g1: "vec2obj ?h (Some 0) (Some 1) None = (?h, Inl (LengthsMustMatch 3 2))"
    by simp
  from c2 have g2: "vec2obj ?h (Some 0) (Some 2) None = (?h @ [[PInt 7, PInt 6, PInt 5]], Inr 3)"
    by simp
  from c3 [THEN conjunct1] a
  have g3: "vec2obj ?h (Some 0) (Some 1) (Some [2, - 3]) = (?h @ [[PInt 8, PInt 2, PInt 9]], Inr 3)"
    by simp
  from c4 a have g4: "[PInt 8, PInt 2, PInt 9] ! nat (norm_index 3 (- 3)) = PInt 8"
    by (simp add: norm_index_def)
  from o g1 g2 h5 g3 g4 show ?thesis
    by simp
qed

text \<open>
  C7 as stated fails when an index list is given and an index is not below the length of
  \<open>orig\<close>: \<open>vec2obj\<close> raises and no replacement is made.
\<close>

theorem vec2obj_counterexample:
  "vec2obj [[PInt 1, PInt 2], [PInt 9]] (Some 0) (Some 1) (Some [5])
     = ([[PInt 1, PInt 2], [PInt 9]], Inl (MaxIndexTooLarge 5 2))"
  by (simp add: vec2obj_def)

text \<open>
  C8. Whatever the arguments and whatever the outcome, every object that existed before the
  call of \<open>vec2obj\<close>, the original among them, is the same after it. When the call returns
  normally, its result is a new object, at an address no object had before, and its
  contents are those of the original with the replacements made one after the other.
\<close>

theorem vec2obj_original_unchanged:
  "take (length h) (fst (vec2obj h orig newvec inds)) = h \<and>
   (snd (vec2obj h orig newvec inds) = Inr new \<longrightarrow>
      new = length h \<and> length (fst (vec2obj h orig newvec inds)) = Suc (length h)) \<and>
   (vec2obj h (Some orig_a) (Some newvec_a) inds = (h', Inr new) \<and> newvec_a < length h \<longrightarrow>
      h' = h @ [assign_all (h ! orig_a) (inds_used h newvec_a inds) (h ! newvec_a)])"
proof (intro conjI impI)
  show "take (length h) (fst (vec2obj h orig newvec inds)) = h"
    by (rule vec2obj_frame_aux)
next
  assume r: "snd (vec2obj h orig newvec inds) = Inr new"
  from vec2obj_fresh [OF r] show "new = length h"
    by simp
  from vec2obj_fresh [OF r] show "length (fst (vec2obj h orig newvec inds)) = Suc (length h)"
    by simp
next
  assume "vec2obj h (Some orig_a) (Some newvec_a) inds = (h', Inr new) \<and> newvec_a < length h"
  then show "h' = h @ [assign_all (h ! orig_a) (inds_used h newvec_a inds) (h ! newvec_a)]"
    using vec2obj_result by blast
qed

theorem vec2obj_original_unchanged_witness:
  "vec2obj [[PInt 1, PInt 2], [PInt 9]] (Some 0) (Some 1) (Some [1])
     = ([[PInt 1, PInt 2], [PInt 9], [PInt 1, PInt 9]], Inr 2) \<and>
   take (length [[PInt 1, PInt 2], [PInt 9]])
     (fst (vec2obj [[PInt 1, PInt 2], [PInt 9]] (Some 0) (Some 1) (Some [1])))
     = [[PInt 1, PInt 2], [PInt 9]] \<and>
   (2::nat) = length [[PInt 1, PInt 2], [PInt 9]] \<and>
   [[PInt 1, PInt 2], [PInt 9], [PInt 1, PInt 9]]
     = [[PInt 1, PInt 2], [PInt 9]] @
       [assign_all ([[PInt 1, PInt 2], [PInt 9]] ! 0)
          (inds_used [[PInt 1, PInt 2], [PInt 9]] 1 (Some [1])) ([[PInt 1, PInt 2], [PInt 9]] ! 1)] \<and>
   vec2obj [[PInt 1, PInt 2], [PInt 9]] (Some 0) (Some 1) (Some [0, 1])
     = ([[PInt 1, PInt 2], [PInt 9], [PInt 9, PInt 2]], Inl IndexError) \<and>
   take (length [[PInt 1, PInt 2], [PInt 9]])
     (fst (vec2obj [[PInt 1, PInt 2], [PInt 9]] (Some 0) (Some 1) (Some [0, 1])))
     = [[PInt 1, PInt 2], [PInt 9]]"
proof -
  let ?h = "[[PInt 1, PInt 2], [PInt 9]]"
  have run: "vec2obj ?h (Some 0) (Some 1) (Some [1]) = (?h @ [[PInt 1, PInt 9]], Inr 2)"
    by (simp add: vec2obj_def dcp_def list_setitem_def norm_index_def)
  have fail: "vec2obj ?h (Some 0) (Some 1) (Some [0, 1]) = (?h @ [[PInt 9, PInt 2]], Inl IndexError)"
    by (simp add: vec2obj_def dcp_def list_setitem_def norm_index_def)
  have h2: "snd (vec2obj ?h (Some 0) (Some 1) (Some [1])) = Inr 2"
    using run by simp
  have h3: "vec2obj ?h (Some 0) (Some 1) (Some [1]) = (?h @ [[PInt 1, PInt 9]], Inr 2) \<and> 1 < length ?h"
    using run by simp
  note t = vec2obj_original_unchanged [where h = ?h and orig = "Some 0" and newvec = "Some 1"]
  note c1 = t [where inds = "Some [1]", THEN conjunct1]
  note c2 = t [where inds = "Some [1]" and new = 2, THEN conjunct2, THEN conjunct1, THEN mp, OF h2]
  note c3 = t [where inds = "Some [1]" and new = 2 and orig_a = 0 and newvec_a = 1
      and h' = "?h @ [[PInt 1, PInt 9]]", THEN conjunct2, THEN conjunct2, THEN mp, OF h3]
  note c4 = t [where inds = "Some [0, 1]", THEN conjunct1]
  from run fail c1 c2 c3 c4 show ?thesis
    by simp
qed

end
